theory Spec2Isabelle
  imports Complex_Main "HOL-Library.Word" "HOL-Library.Signed_Division"
begin

section \<open>Shared vocabulary\<close>

text \<open>
  Go errors are values. \<open>Wrap prefix e\<close> is \<^verbatim>\<open>fmt.Errorf("<prefix>: %w", e)\<close>: the new
  error keeps the wrapped one, so that \<^verbatim>\<open>errors.Unwrap\<close> returns it. \<open>SyntaxError\<close> and
  \<open>UnmarshalTypeError value field\<close> are the two errors of \<^verbatim>\<open>encoding/json\<close> met here.
\<close>

datatype error =
    Canceled
  | DeadlineExceeded
  | SyntaxError
  | UnmarshalTypeError string string
  | Other string
  | Wrap string error

fun unwrap :: "error \<Rightarrow> error option" where
  "unwrap (Wrap _ e) = Some e"
| "unwrap _ = None"

datatype runtime_panic = IntegerDivideByZero

type_synonym bytes = string

text \<open>A \<^verbatim>\<open>time.Time\<close> in UTC is the instant it denotes, in nanoseconds; the zero value is 0.\<close>

type_synonym Time = int

text \<open>
  A \<^verbatim>\<open>context.Context\<close> is read through \<^verbatim>\<open>ctx.Err()\<close>, whose answer depends on the moment
  it is asked: a context is the function from the state of the outside world to that
  answer. \<^verbatim>\<open>ctx.Done()\<close> is closed exactly when \<^verbatim>\<open>ctx.Err()\<close> is not nil.
\<close>

type_synonym 'n Context = "'n \<Rightarrow> error option"

text \<open>Calls to the zap logger: level, message, fields.\<close>

datatype level = DebugLevel | InfoLevel | WarnLevel | ErrorLevel

datatype field = ZString string string | ZInt64 string int | ZError error

datatype log_entry = Log level string "field list"

section \<open>package kafka: the CloudEvent envelope\<close>

text \<open>
  \<open>Data\<close> is a \<^verbatim>\<open>json.RawMessage\<close>, a byte slice that may be nil (\<open>None\<close>); the zero value
  of the struct has every string empty, the zero time and nil data.
\<close>

record CloudEvent =
  ID :: string
  Source :: string
  Type :: string
  Time :: Time
  DataContentType :: string
  Data :: "bytes option"

definition zero_CloudEvent :: CloudEvent where
  "zero_CloudEvent =
     \<lparr>ID = [], Source = [], Type = [], Time = 0, DataContentType = [], Data = None\<rparr>"

section \<open>encoding/json: the scanner\<close>

text \<open>
  \<^verbatim>\<open>json.Unmarshal\<close> and the compaction inside \<^verbatim>\<open>json.Marshal\<close> both read their input
  through the state machine of \<^verbatim>\<open>scanner.go\<close> in the Go standard library: one step
  function for each state, a stack of the objects and arrays that are open (top first),
  and an operation code returned for each byte. It is transcribed state for state; the
  text of the syntax error is left out, \<open>StError\<close> stands for \<^verbatim>\<open>s.err != nil\<close>.
\<close>

datatype step_state =
    BeginValueOrEmpty | BeginValue | BeginStringOrEmpty | BeginString | EndValue | EndTop
  | InString | InStringEsc | InStringEscU | InStringEscU1 | InStringEscU12 | InStringEscU123
  | Neg | St1 | St0 | Dot | Dot0 | StE | ESign | E0
  | StT | Tr | Tru | StF | Fa | Fal | Fals | StN | Nu | Nul
  | StError

datatype parse_state = parseObjectKey | parseObjectValue | parseArrayValue

datatype opcode =
    scanContinue | scanBeginLiteral | scanBeginObject | scanObjectKey | scanObjectValue
  | scanEndObject | scanBeginArray | scanArrayValue | scanEndArray | scanSkipSpace | scanEnd
  | scanError

record scanner =
  step :: step_state
  endTop :: bool
  parseState :: "parse_state list"

definition maxNestingDepth :: nat where
  "maxNestingDepth = 10000"

definition quote :: char where
  "quote = CHR 0x22"

definition backslash :: char where
  "backslash = CHR 0x5C"

definition isSpace :: "char \<Rightarrow> bool" where
  "isSpace c = (c = CHR '' '' \<or> c = CHR 0x09 \<or> c = CHR 0x0D \<or> c = CHR 0x0A)"

definition isDigit :: "char \<Rightarrow> bool" where
  "isDigit c = (48 \<le> (of_char c :: nat) \<and> (of_char c :: nat) \<le> 57)"

definition isDigit19 :: "char \<Rightarrow> bool" where
  "isDigit19 c = (49 \<le> (of_char c :: nat) \<and> (of_char c :: nat) \<le> 57)"

definition isHex :: "char \<Rightarrow> bool" where
  "isHex c = (isDigit c \<or> (97 \<le> (of_char c :: nat) \<and> (of_char c :: nat) \<le> 102)
                       \<or> (65 \<le> (of_char c :: nat) \<and> (of_char c :: nat) \<le> 70))"

definition scan_reset :: scanner where
  "scan_reset = \<lparr>step = BeginValue, endTop = False, parseState = []\<rparr>"

definition scan_error :: "scanner \<Rightarrow> opcode \<times> scanner" where
  "scan_error s = (scanError, s\<lparr>step := StError\<rparr>)"

definition goto :: "step_state \<Rightarrow> opcode \<Rightarrow> scanner \<Rightarrow> opcode \<times> scanner" where
  "goto st op s = (op, s\<lparr>step := st\<rparr>)"

definition pushParseState :: "parse_state \<Rightarrow> opcode \<Rightarrow> scanner \<Rightarrow> opcode \<times> scanner" where
  "pushParseState newParseState successState s =
     (let s' = s\<lparr>parseState := newParseState # parseState s\<rparr>
      in if length (parseState s') \<le> maxNestingDepth then (successState, s') else scan_error s')"

definition popParseState :: "scanner \<Rightarrow> scanner" where
  "popParseState s =
     (let rest = tl (parseState s)
      in if rest = [] then s\<lparr>parseState := rest, step := EndTop, endTop := True\<rparr>
         else s\<lparr>parseState := rest, step := EndValue\<rparr>)"

definition stateEndTop :: "scanner \<Rightarrow> char \<Rightarrow> opcode \<times> scanner" where
  "stateEndTop s c = (if \<not> isSpace c then (scanEnd, s\<lparr>step := StError\<rparr>) else (scanEnd, s))"

definition stateEndValue :: "scanner \<Rightarrow> char \<Rightarrow> opcode \<times> scanner" where
  "stateEndValue s c =
     (case parseState s of
        [] \<Rightarrow> stateEndTop (s\<lparr>step := EndTop, endTop := True\<rparr>) c
      | ps # rest \<Rightarrow>
          if isSpace c then goto EndValue scanSkipSpace s
          else (case ps of
             parseObjectKey \<Rightarrow>
               if c = CHR '':'' then (scanObjectKey, s\<lparr>parseState := parseObjectValue # rest, step := BeginValue\<rparr>)
               else scan_error s
           | parseObjectValue \<Rightarrow>
               if c = CHR '','' then (scanObjectValue, s\<lparr>parseState := parseObjectKey # rest, step := BeginString\<rparr>)
               else if c = CHR ''}'' then (scanEndObject, popParseState s)
               else scan_error s
           | parseArrayValue \<Rightarrow>
               if c = CHR '','' then goto BeginValue scanArrayValue s
               else if c = CHR '']'' then (scanEndArray, popParseState s)
               else scan_error s))"

definition stateBeginValue :: "scanner \<Rightarrow> char \<Rightarrow> opcode \<times> scanner" where
  "stateBeginValue s c =
     (if isSpace c then (scanSkipSpace, s)
      else if c = CHR ''{'' then pushParseState parseObjectKey scanBeginObject (s\<lparr>step := BeginStringOrEmpty\<rparr>)
      else if c = CHR ''['' then pushParseState parseArrayValue scanBeginArray (s\<lparr>step := BeginValueOrEmpty\<rparr>)
      else if c = quote then goto InString scanBeginLiteral s
      else if c = CHR ''-'' then goto Neg scanBeginLiteral s
      else if c = CHR ''0'' then goto St0 scanBeginLiteral s
      else if c = CHR ''t'' then goto StT scanBeginLiteral s
      else if c = CHR ''f'' then goto StF scanBeginLiteral s
      else if c = CHR ''n'' then goto StN scanBeginLiteral s
      else if isDigit19 c then goto St1 scanBeginLiteral s
      else scan_error s)"

definition stateBeginValueOrEmpty :: "scanner \<Rightarrow> char \<Rightarrow> opcode \<times> scanner" where
  "stateBeginValueOrEmpty s c =
     (if isSpace c then (scanSkipSpace, s)
      else if c = CHR '']'' then stateEndValue s c
      else stateBeginValue s c)"

definition stateBeginString :: "scanner \<Rightarrow> char \<Rightarrow> opcode \<times> scanner" where
  "stateBeginString s c =
     (if isSpace c then (scanSkipSpace, s)
      else if c = quote then goto InString scanBeginLiteral s
      else scan_error s)"

definition stateBeginStringOrEmpty :: "scanner \<Rightarrow> char \<Rightarrow> opcode \<times> scanner" where
  "stateBeginStringOrEmpty s c =
     (if isSpace c then (scanSkipSpace, s)
      else if c = CHR ''}'' then stateEndValue (s\<lparr>parseState := parseObjectValue # tl (parseState s)\<rparr>) c
      else stateBeginString s c)"

definition stateInString :: "scanner \<Rightarrow> char \<Rightarrow> opcode \<times> scanner" where
  "stateInString s c =
     (if c = quote then goto EndValue scanContinue s
      else if c = backslash then goto InStringEsc scanContinue s
      else if (of_char c :: nat) < 0x20 then scan_error s
      else (scanContinue, s))"

definition stateInStringEsc :: "scanner \<Rightarrow> char \<Rightarrow> opcode \<times> scanner" where
  "stateInStringEsc s c =
     (if c \<in> set ''bfnrt/'' \<or> c = backslash \<or> c = quote then goto InString scanContinue s
      else if c = CHR ''u'' then goto InStringEscU scanContinue s
      else scan_error s)"

definition state0 :: "scanner \<Rightarrow> char \<Rightarrow> opcode \<times> scanner" where
  "state0 s c =
     (if c = CHR ''.'' then goto Dot scanContinue s
      else if c = CHR ''e'' \<or> c = CHR ''E'' then goto StE scanContinue s
      else stateEndValue s c)"

definition stateESign :: "scanner \<Rightarrow> char \<Rightarrow> opcode \<times> scanner" where
  "stateESign s c = (if isDigit c then goto E0 scanContinue s else scan_error s)"

definition expect :: "char \<Rightarrow> step_state \<Rightarrow> scanner \<Rightarrow> char \<Rightarrow> opcode \<times> scanner" where
  "expect want next s c = (if c = want then goto next scanContinue s else scan_error s)"

definition scan_step :: "scanner \<Rightarrow> char \<Rightarrow> opcode \<times> scanner" where
  "scan_step s c =
     (case step s of
        BeginValueOrEmpty \<Rightarrow> stateBeginValueOrEmpty s c
      | BeginValue \<Rightarrow> stateBeginValue s c
      | BeginStringOrEmpty \<Rightarrow> stateBeginStringOrEmpty s c
      | BeginString \<Rightarrow> stateBeginString s c
      | EndValue \<Rightarrow> stateEndValue s c
      | EndTop \<Rightarrow> stateEndTop s c
      | InString \<Rightarrow> stateInString s c
      | InStringEsc \<Rightarrow> stateInStringEsc s c
      | InStringEscU \<Rightarrow> (if isHex c then goto InStringEscU1 scanContinue s else scan_error s)
      | InStringEscU1 \<Rightarrow> (if isHex c then goto InStringEscU12 scanContinue s else scan_error s)
      | InStringEscU12 \<Rightarrow> (if isHex c then goto InStringEscU123 scanContinue s else scan_error s)
      | InStringEscU123 \<Rightarrow> (if isHex c then goto InString scanContinue s else scan_error s)
      | Neg \<Rightarrow>
          (if c = CHR ''0'' then goto St0 scanContinue s
           else if isDigit19 c then goto St1 scanContinue s
           else scan_error s)
      | St1 \<Rightarrow> (if isDigit c then goto St1 scanContinue s else state0 s c)
      | St0 \<Rightarrow> state0 s c
      | Dot \<Rightarrow> (if isDigit c then goto Dot0 scanContinue s else scan_error s)
      | Dot0 \<Rightarrow>
          (if isDigit c then (scanContinue, s)
           else if c = CHR ''e'' \<or> c = CHR ''E'' then goto StE scanContinue s
           else stateEndValue s c)
      | StE \<Rightarrow>
          (if c = CHR ''+'' \<or> c = CHR ''-'' then goto ESign scanContinue s
           else stateESign s c)
      | ESign \<Rightarrow> stateESign s c
      | E0 \<Rightarrow> (if isDigit c then (scanContinue, s) else stateEndValue s c)
      | StT \<Rightarrow> expect (CHR ''r'') Tr s c
      | Tr \<Rightarrow> expect (CHR ''u'') Tru s c
      | Tru \<Rightarrow> expect (CHR ''e'') EndValue s c
      | StF \<Rightarrow> expect (CHR ''a'') Fa s c
      | Fa \<Rightarrow> expect (CHR ''l'') Fal s c
      | Fal \<Rightarrow> expect (CHR ''s'') Fals s c
      | Fals \<Rightarrow> expect (CHR ''e'') EndValue s c
      | StN \<Rightarrow> expect (CHR ''u'') Nu s c
      | Nu \<Rightarrow> expect (CHR ''l'') Nul s c
      | Nul \<Rightarrow> expect (CHR ''l'') EndValue s c
      | StError \<Rightarrow> (scanError, s))"

text \<open>
  \<^verbatim>\<open>scan.eof()\<close>: the input ends well when the top-level value is complete, if need be
  after a last space that ends a number.
\<close>

definition scan_eof_ok :: "scanner \<Rightarrow> bool" where
  "scan_eof_ok s =
     (step s \<noteq> StError \<and> (endTop s \<or> endTop (snd (scan_step s (CHR '' '')))))"

text \<open>
  \<^verbatim>\<open>checkValid\<close>: feed every byte, stop at the first \<^verbatim>\<open>scanError\<close>, then ask \<^verbatim>\<open>eof\<close>. Once
  in \<open>StError\<close> the scanner stays there, so running on to the end of the input finds
  the same answer.
\<close>

fun scan_all :: "scanner \<Rightarrow> bytes \<Rightarrow> scanner" where
  "scan_all s [] = s"
| "scan_all s (c # cs) = scan_all (snd (scan_step s c)) cs"

definition checkValid :: "bytes \<Rightarrow> bool" where
  "checkValid data = scan_eof_ok (scan_all scan_reset data)"

section \<open>encoding/json: strings\<close>

text \<open>
  \<^verbatim>\<open>utf8.DecodeRune\<close>, as far as its width: the number of bytes of the well-formed
  encoding the input starts with, and 0 when it starts with none (Go then reads one byte
  as U+FFFD).
\<close>

definition byte_in :: "nat \<Rightarrow> nat \<Rightarrow> char \<Rightarrow> bool" where
  "byte_in lo hi c = (lo \<le> (of_char c :: nat) \<and> (of_char c :: nat) \<le> hi)"

fun utf8_width :: "bytes \<Rightarrow> nat" where
  "utf8_width [] = 0"
| "utf8_width (b0 # bs) =
     (if (of_char b0 :: nat) < 0x80 then 1
      else if byte_in 0xC2 0xDF b0 then
        (case bs of b1 # _ \<Rightarrow> if byte_in 0x80 0xBF b1 then 2 else 0 | _ \<Rightarrow> 0)
      else if byte_in 0xE0 0xEF b0 then
        (case bs of
           b1 # b2 # _ \<Rightarrow>
             if byte_in (if b0 = CHR 0xE0 then 0xA0 else 0x80) (if b0 = CHR 0xED then 0x9F else 0xBF) b1
                \<and> byte_in 0x80 0xBF b2
             then 3 else 0
         | _ \<Rightarrow> 0)
      else if byte_in 0xF0 0xF4 b0 then
        (case bs of
           b1 # b2 # b3 # _ \<Rightarrow>
             if byte_in (if b0 = CHR 0xF0 then 0x90 else 0x80) (if b0 = CHR 0xF4 then 0x8F else 0xBF) b1
                \<and> byte_in 0x80 0xBF b2 \<and> byte_in 0x80 0xBF b3
             then 4 else 0
         | _ \<Rightarrow> 0)
      else 0)"

text \<open>\<^verbatim>\<open>utf8.EncodeRune\<close>: surrogates and values past U+10FFFF are written as U+FFFD.\<close>

definition encode_rune :: "nat \<Rightarrow> bytes" where
  "encode_rune r =
     (if r < 0x80 then [char_of r]
      else if r < 0x800 then [char_of (0xC0 + r div 64), char_of (0x80 + r mod 64)]
      else if 0x10FFFF < r \<or> (0xD800 \<le> r \<and> r < 0xE000) then [CHR 0xEF, CHR 0xBF, CHR 0xBD]
      else if r < 0x10000 then
        [char_of (0xE0 + r div 4096), char_of (0x80 + r div 64 mod 64), char_of (0x80 + r mod 64)]
      else
        [char_of (0xF0 + r div 262144), char_of (0x80 + r div 4096 mod 64),
         char_of (0x80 + r div 64 mod 64), char_of (0x80 + r mod 64)])"

definition hex_val :: "char \<Rightarrow> nat option" where
  "hex_val c =
     (let n = (of_char c :: nat) in
      if 48 \<le> n \<and> n \<le> 57 then Some (n - 48)
      else if 97 \<le> n \<and> n \<le> 102 then Some (n - 97 + 10)
      else if 65 \<le> n \<and> n \<le> 70 then Some (n - 65 + 10)
      else None)"

text \<open>\<^verbatim>\<open>getu4\<close>: the value of a \<^verbatim>\<open>\uXXXX\<close> at the head of the input, if there is one.\<close>

fun getu4 :: "bytes \<Rightarrow> nat option" where
  "getu4 (b # u # h1 # h2 # h3 # h4 # _) =
     (if b = backslash \<and> u = CHR ''u'' then
        (case (hex_val h1, hex_val h2, hex_val h3, hex_val h4) of
           (Some a, Some b, Some c, Some d) \<Rightarrow> Some (((a * 16 + b) * 16 + c) * 16 + d)
         | _ \<Rightarrow> None)
      else None)"
| "getu4 _ = None"

definition utf16_DecodeRune :: "nat \<Rightarrow> nat \<Rightarrow> nat" where
  "utf16_DecodeRune r1 r2 =
     (if 0xD800 \<le> r1 \<and> r1 < 0xDC00 \<and> 0xDC00 \<le> r2 \<and> r2 < 0xE000
      then (r1 - 0xD800) * 1024 + (r2 - 0xDC00) + 0x10000
      else 0xFFFD)"

text \<open>
  \<^verbatim>\<open>unquoteBytes\<close>, on what stands between the quotes of a string literal: escapes are
  decoded, a lone or ill-paired surrogate escape and every byte that starts no
  well-formed UTF-8 encoding become U+FFFD, everything else is copied. \<open>None\<close> is Go's
  \<^verbatim>\<open>ok == false\<close>.
\<close>

fun unquote_body :: "bytes \<Rightarrow> bytes option" where
  "unquote_body [] = Some []"
| "unquote_body (c # cs) =
     (if c = backslash then
        (case cs of
           [] \<Rightarrow> None
         | e # r \<Rightarrow>
             if e = quote \<or> e = backslash \<or> e = CHR ''/'' \<or> e = CHR 0x27
               then map_option ((#) e) (unquote_body r)
             else if e = CHR ''b'' then map_option ((#) (CHR 0x08)) (unquote_body r)
             else if e = CHR ''f'' then map_option ((#) (CHR 0x0C)) (unquote_body r)
             else if e = CHR ''n'' then map_option ((#) (CHR 0x0A)) (unquote_body r)
             else if e = CHR ''r'' then map_option ((#) (CHR 0x0D)) (unquote_body r)
             else if e = CHR ''t'' then map_option ((#) (CHR 0x09)) (unquote_body r)
             else if e = CHR ''u'' then
               (case getu4 (c # cs) of
                  None \<Rightarrow> None
                | Some rr \<Rightarrow>
                    if 0xD800 \<le> rr \<and> rr < 0xE000 then
                      (case getu4 (drop 4 r) of
                         None \<Rightarrow> map_option ((@) (encode_rune 0xFFFD)) (unquote_body (drop 4 r))
                       | Some rr1 \<Rightarrow>
                           if utf16_DecodeRune rr rr1 \<noteq> 0xFFFD
                           then map_option ((@) (encode_rune (utf16_DecodeRune rr rr1)))
                                  (unquote_body (drop 10 r))
                           else map_option ((@) (encode_rune 0xFFFD)) (unquote_body (drop 4 r)))
                    else map_option ((@) (encode_rune rr)) (unquote_body (drop 4 r)))
             else None)
      else if c = quote \<or> (of_char c :: nat) < 0x20 then None
      else if (of_char c :: nat) < 0x80 then map_option ((#) c) (unquote_body cs)
      else if utf8_width (c # cs) = 0
        then map_option ((@) (encode_rune 0xFFFD)) (unquote_body cs)
        else map_option ((@) (take (utf8_width (c # cs)) (c # cs)))
               (unquote_body (drop (utf8_width (c # cs) - 1) cs)))"

definition unquoteBytes :: "bytes \<Rightarrow> bytes option" where
  "unquoteBytes s =
     (if length s < 2 \<or> hd s \<noteq> quote \<or> last s \<noteq> quote then None
      else unquote_body (butlast (tl s)))"

section \<open>encoding/json: decoding into a CloudEvent\<close>

text \<open>
  The decoder finds where a value ends by stepping the scanner from the value's first
  byte, with the stack as it is at that point (\<open>depth\<close> entries): a string, a literal,
  an array or an object ends with the byte that brings the scanner to the end of a value
  at that depth, a number ends before the first byte that does not continue it. The
  result is the number of bytes of the value.
\<close>

definition in_number :: "step_state \<Rightarrow> bool" where
  "in_number st = (st \<in> {Neg, St0, St1, Dot, Dot0, StE, ESign, E0})"

fun value_end :: "nat \<Rightarrow> scanner \<Rightarrow> bytes \<Rightarrow> nat \<Rightarrow> nat option" where
  "value_end depth s [] n = (if step s \<in> {St0, St1, Dot0, E0} then Some n else None)"
| "value_end depth s (c # cs) n =
     (let s' = snd (scan_step s c) in
      if length (parseState s) = depth \<and> in_number (step s) \<and> \<not> in_number (step s') then
        (if step s \<in> {St0, St1, Dot0, E0} then Some n else None)
      else if step s' = StError then None
      else if (step s' = EndValue \<or> step s' = EndTop) \<and> length (parseState s') = depth
        then Some (Suc n)
      else value_end depth s' cs (Suc n))"

text \<open>Inside the top-level object the stack has one entry.\<close>

definition key_extent :: "bytes \<Rightarrow> nat option" where
  "key_extent bs =
     value_end 1 \<lparr>step = BeginString, endTop = False, parseState = [parseObjectKey]\<rparr> bs 0"

definition value_extent :: "bytes \<Rightarrow> nat option" where
  "value_extent bs =
     value_end 1 \<lparr>step = BeginValue, endTop = False, parseState = [parseObjectValue]\<rparr> bs 0"

text \<open>
  Field names are matched exactly, and failing that under Unicode simple case folding
  (\<^verbatim>\<open>foldName\<close>): against an upper-case ASCII name, a letter matches in either case, and
  the long s (U+017F) and the Kelvin sign (U+212A) match \<open>S\<close> and \<open>K\<close>.
\<close>

definition upper :: "char \<Rightarrow> char" where
  "upper c = (if byte_in 97 122 c then char_of ((of_char c :: nat) - 32) else c)"

fun fold_match :: "bytes \<Rightarrow> bytes \<Rightarrow> bool" where
  "fold_match [] [] = True"
| "fold_match (k # ks) (n # ns) =
     (if k = CHR 0xC5 \<and> take 1 ks = [CHR 0xBF] then n = CHR ''S'' \<and> fold_match (drop 1 ks) ns
      else if k = CHR 0xE2 \<and> take 2 ks = [CHR 0x84, CHR 0xAA] then n = CHR ''K'' \<and> fold_match (drop 2 ks) ns
      else upper k = n \<and> fold_match ks ns)"
| "fold_match _ _ = False"

datatype field_name = F_id | F_source | F_type | F_time | F_datacontenttype | F_data

definition json_name :: "field_name \<Rightarrow> string" where
  "json_name f = (case f of
     F_id \<Rightarrow> ''id'' | F_source \<Rightarrow> ''source'' | F_type \<Rightarrow> ''type'' | F_time \<Rightarrow> ''time''
   | F_datacontenttype \<Rightarrow> ''datacontenttype'' | F_data \<Rightarrow> ''data'')"

definition fields :: "field_name list" where
  "fields = [F_id, F_source, F_type, F_time, F_datacontenttype, F_data]"

definition find_field :: "bytes \<Rightarrow> field_name option" where
  "find_field key =
     (case find (\<lambda>f. json_name f = key) fields of
        Some f \<Rightarrow> Some f
      | None \<Rightarrow> find (\<lambda>f. fold_match key (map upper (json_name f))) fields)"

text \<open>
  The time package, as far as it is used: strict RFC 3339 formatting (which fails for a
  year outside 0 to 9999) and parsing. \<^verbatim>\<open>Time.MarshalJSON\<close> and \<^verbatim>\<open>Time.UnmarshalJSON\<close>
  put and expect the quotes around it.
\<close>

record time_lib =
  format_rfc3339 :: "Time \<Rightarrow> error + bytes"
  parse_rfc3339 :: "bytes \<Rightarrow> error + Time"

definition Time_UnmarshalJSON :: "time_lib \<Rightarrow> bytes \<Rightarrow> Time \<Rightarrow> error + Time" where
  "Time_UnmarshalJSON T dat t =
     (if dat = ''null'' then Inr t
      else if length dat < 2 \<or> hd dat \<noteq> quote \<or> last dat \<noteq> quote
        then Inl (Other ''Time.UnmarshalJSON: input is not a JSON string'')
      else parse_rfc3339 T (butlast (tl dat)))"

text \<open>
  Storing one member. A string field takes a JSON string, ignores \<^verbatim>\<open>null\<close>, and notes an
  \<open>UnmarshalTypeError\<close> for anything else, after which decoding goes on. \<open>Time\<close> and \<open>Data\<close>
  implement \<^verbatim>\<open>Unmarshaler\<close> and are handed the raw bytes of the value; an error from there
  stops the decoding. The result is the event and either the error that stops, or the
  type error to note, if any.
\<close>

definition json_kind :: "bytes \<Rightarrow> string" where
  "json_kind raw =
     (if raw = [] then ''number''
      else if hd raw = CHR ''{'' then ''object''
      else if hd raw = CHR ''['' then ''array''
      else if hd raw = quote then ''string''
      else if hd raw = CHR ''t'' \<or> hd raw = CHR ''f'' then ''bool''
      else ''number'')"

definition phase_panic :: error where
  "phase_panic = Other ''JSON decoder out of sync - data changing underfoot?''"

definition store_string ::
  "string \<Rightarrow> (string \<Rightarrow> CloudEvent) \<Rightarrow> bytes \<Rightarrow> CloudEvent \<Rightarrow> CloudEvent \<times> error option \<times> error option" where
  "store_string name set_field raw ev =
     (if raw \<noteq> [] \<and> hd raw = CHR ''n'' then (ev, None, None)
      else if raw \<noteq> [] \<and> hd raw = quote then
        (case unquoteBytes raw of
           Some s \<Rightarrow> (set_field s, None, None)
         | None \<Rightarrow> (ev, Some phase_panic, None))
      else (ev, None, Some (UnmarshalTypeError (json_kind raw) name)))"

definition store_field ::
  "time_lib \<Rightarrow> field_name \<Rightarrow> bytes \<Rightarrow> CloudEvent \<Rightarrow> CloudEvent \<times> error option \<times> error option" where
  "store_field T f raw ev =
     (case f of
        F_id \<Rightarrow> store_string ''CloudEvent.id'' (\<lambda>s. ev\<lparr>ID := s\<rparr>) raw ev
      | F_source \<Rightarrow> store_string ''CloudEvent.source'' (\<lambda>s. ev\<lparr>Source := s\<rparr>) raw ev
      | F_type \<Rightarrow> store_string ''CloudEvent.type'' (\<lambda>s. ev\<lparr>Type := s\<rparr>) raw ev
      | F_datacontenttype \<Rightarrow>
          store_string ''CloudEvent.datacontenttype'' (\<lambda>s. ev\<lparr>DataContentType := s\<rparr>) raw ev
      | F_time \<Rightarrow>
          (case Time_UnmarshalJSON T raw (Time ev) of
             Inl e \<Rightarrow> (ev, Some e, None)
           | Inr t \<Rightarrow> (ev\<lparr>Time := t\<rparr>, None, None))
      | F_data \<Rightarrow> (ev\<lparr>Data := Some raw\<rparr>, None, None))"

text \<open>
  The members of the object, from the byte after \<^verbatim>\<open>{\<close> or after a comma. \<open>saved\<close> is the
  first type error noted so far. The input has passed \<open>checkValid\<close>, so the branches that
  answer \<open>phase_panic\<close> are those where Go's decoder panics for the same reason.
\<close>

function (sequential) object_members ::
  "time_lib \<Rightarrow> bytes \<Rightarrow> CloudEvent \<Rightarrow> error option \<Rightarrow> CloudEvent \<times> error option" where
  "object_members T bs ev saved =
     (let b1 = dropWhile isSpace bs in
      if b1 = [] then (ev, Some phase_panic)
      else if hd b1 = CHR ''}'' then (ev, saved)
      else
        (case key_extent b1 of
           None \<Rightarrow> (ev, Some phase_panic)
         | Some klen \<Rightarrow>
             (case unquoteBytes (take klen b1) of
                None \<Rightarrow> (ev, Some phase_panic)
              | Some key \<Rightarrow>
                  (let b2 = dropWhile isSpace (drop klen b1) in
                   if b2 = [] \<or> hd b2 \<noteq> CHR '':'' then (ev, Some phase_panic)
                   else
                     (let b3 = dropWhile isSpace (tl b2) in
                      case value_extent b3 of
                        None \<Rightarrow> (ev, Some phase_panic)
                      | Some vlen \<Rightarrow>
                          (case (case find_field key of
                                   None \<Rightarrow> (ev, None, None)
                                 | Some f \<Rightarrow> store_field T f (take vlen b3) ev) of
                             (ev', Some stop, _) \<Rightarrow> (ev', Some stop)
                           | (ev', None, noted) \<Rightarrow>
                               (let saved' = (case saved of None \<Rightarrow> noted | Some e \<Rightarrow> Some e);
                                    b4 = dropWhile isSpace (drop vlen b3)
                                in if b4 = [] then (ev', Some phase_panic)
                                   else if hd b4 = CHR ''}'' then (ev', saved')
                                   else if hd b4 = CHR '','' then object_members T (tl b4) ev' saved'
                                   else (ev', Some phase_panic))))))))"
  by pat_completeness auto

termination
proof (relation "measure (\<lambda>(T, bs, ev, saved). length bs)")
  show "wf (measure (\<lambda>(T, bs, ev, saved). length bs))" by simp
next
  fix T :: time_lib and bs :: bytes and ev :: CloudEvent and saved :: "error option"
    and b1 klen key b2 b3 vlen ev' saved' b4
  assume b1: "b1 = dropWhile isSpace bs" and b2: "b2 = dropWhile isSpace (drop klen b1)"
    and b3: "b3 = dropWhile isSpace (tl b2)" and b4: "b4 = dropWhile isSpace (drop vlen b3)"
    and ne: "b4 \<noteq> []"
  have "length (tl b4) < length b4" using ne by (cases b4) simp_all
  also have "length b4 \<le> length b3"
    unfolding b4 by (rule order_trans [OF length_dropWhile_le]) simp
  also have "length b3 \<le> length b2"
    unfolding b3 by (rule order_trans [OF length_dropWhile_le]) simp
  also have "length b2 \<le> length b1"
    unfolding b2 by (rule order_trans [OF length_dropWhile_le]) simp
  also have "length b1 \<le> length bs"
    unfolding b1 by (rule length_dropWhile_le)
  finally show "((T, tl b4, ev', saved'), (T, bs, ev, saved)) \<in> measure (\<lambda>(T, bs, ev, saved). length bs)"
    by simp
qed

section \<open>encoding/json: encoding\<close>

text \<open>
  \<^verbatim>\<open>appendString\<close> with HTML escaping, which \<^verbatim>\<open>json.Marshal\<close> has on: printable ASCII is
  copied, except the quote and the backslash, which get a backslash, and \<^verbatim>\<open><\<close>, \<^verbatim>\<open>>\<close> and
  \<^verbatim>\<open>&\<close>, which are written \<^verbatim>\<open>\u00XX\<close> like the control characters without a short escape;
  well-formed UTF-8 is copied, except U+2028 and U+2029; a byte that starts no
  well-formed encoding is written as the escape of U+FFFD.
\<close>

definition hex_digit :: "nat \<Rightarrow> char" where
  "hex_digit n = ''0123456789abcdef'' ! n"

definition htmlSafe :: "char \<Rightarrow> bool" where
  "htmlSafe c = (byte_in 0x20 0x7F c \<and> c \<noteq> quote \<and> c \<noteq> backslash \<and>
                 c \<noteq> CHR ''<'' \<and> c \<noteq> CHR ''>'' \<and> c \<noteq> CHR ''&'')"

definition escape_ascii :: "char \<Rightarrow> bytes" where
  "escape_ascii c =
     (if htmlSafe c then [c]
      else if c = backslash \<or> c = quote then [backslash, c]
      else if c = CHR 0x08 then [backslash, CHR ''b'']
      else if c = CHR 0x0C then [backslash, CHR ''f'']
      else if c = CHR 0x0A then [backslash, CHR ''n'']
      else if c = CHR 0x0D then [backslash, CHR ''r'']
      else if c = CHR 0x09 then [backslash, CHR ''t'']
      else [backslash, CHR ''u'', CHR ''0'', CHR ''0'',
            hex_digit ((of_char c :: nat) div 16), hex_digit ((of_char c :: nat) mod 16)])"










text \<open>
  Well-formed UTF-8, which is what a JSON string can carry unchanged; text that needs
  no escaping at all; and what \<^verbatim>\<open>json.Marshal\<close> returns for a value: one JSON value in
  compact form, here read as the last member of an object.
\<close>

function valid_utf8 :: "bytes \<Rightarrow> bool" where
  "valid_utf8 [] = True"
| "valid_utf8 (c # cs) =
     (if (of_char c :: nat) < 0x80 then valid_utf8 cs
      else utf8_width (c # cs) \<noteq> 0 \<and> valid_utf8 (drop (utf8_width (c # cs) - 1) cs))"
  by pat_completeness auto
termination
  by (relation "measure length") (simp_all del: utf8_width.simps)



text \<open>
  \<^verbatim>\<open>json.Unmarshal(data, &event)\<close>: the whole input is checked first and a syntax error
  leaves the target untouched; then an object is decoded member by member, \<^verbatim>\<open>null\<close> does
  nothing, and any other value is a type error for the struct. An error that stopped
  the decoding is returned before a type error that was noted.
\<close>

definition json_Unmarshal_CloudEvent :: "time_lib \<Rightarrow> bytes \<Rightarrow> CloudEvent \<Rightarrow> CloudEvent \<times> error option" where
  "json_Unmarshal_CloudEvent T dat v =
     (if \<not> checkValid dat then (v, Some SyntaxError)
      else
        (let b = dropWhile isSpace dat in
         if b = [] then (v, Some phase_panic)
         else if hd b = CHR ''{'' then object_members T (tl b) v None
         else if hd b = CHR ''n'' then (v, None)
         else (v, Some (UnmarshalTypeError (json_kind b) ''CloudEvent''))))"

section \<open>cloudevent.go\<close>


definition ParseCloudEvent :: "time_lib \<Rightarrow> bytes \<Rightarrow> CloudEvent \<times> error option" where
  "ParseCloudEvent T dat =
     (case json_Unmarshal_CloudEvent T dat zero_CloudEvent of
        (event, Some err) \<Rightarrow> (zero_CloudEvent, Some (Wrap ''failed to parse cloud event'' err))
      | (event, None) \<Rightarrow> (event, None))"




text \<open>Text that every encoder and decoder here copies as it is.\<close>

definition plain :: "char \<Rightarrow> bool" where
  "plain c = htmlSafe c"


section \<open>package kafka: messages, writers and the world they act on\<close>

record Message =
  Key :: bytes
  Value :: bytes
  MsgTime :: Time
  Offset :: int

datatype balancer = LeastBytes

datatype required_acks = RequireNone | RequireOne | RequireAll

text \<open>
  A \<^verbatim>\<open>*kafka.Writer\<close> is the struct together with its address \<open>ptr\<close>: two writers with
  the same fields and different addresses are different connections. Durations are in
  nanoseconds, as \<^verbatim>\<open>time.Duration\<close> is.
\<close>

record Writer =
  ptr :: nat
  Addr :: "string list"
  Topic :: string
  Balancer :: balancer
  BatchTimeout :: int
  RequiredAcks :: required_acks

definition Millisecond :: int where
  "Millisecond = 1000000"

text \<open>What the code does to its surroundings, in the order it does it.\<close>

datatype event =
    EvWrite Writer Message "error option"
  | EvFetch "error + Message"
  | EvHandle Message "error option"
  | EvCommit Message "error option"
  | EvLog log_entry

text \<open>
  The world outside the Go values: every writer allocated so far (\<open>created\<close>, a new one
  gets the next address), the trace of calls made, and the state \<open>net\<close> of brokers, clock
  and caller, which the model does not look into.
\<close>

record 'n world =
  created :: "Writer list"
  trace :: "event list"
  net :: 'n

definition emit :: "event \<Rightarrow> 'n world \<Rightarrow> 'n world" where
  "emit e W = W\<lparr>trace := trace W @ [e]\<rparr>"

subsection \<open>producer.go\<close>

record Producer =
  writers :: "string \<rightharpoonup> Writer"
  brokers :: "string list"

text \<open>
  The collaborators of the producer: \<^verbatim>\<open>json.Marshal\<close> on the payload type \<open>'p\<close>, the clock
  behind \<^verbatim>\<open>time.Now().UTC()\<close>, and \<^verbatim>\<open>(*kafka.Writer).WriteMessages\<close>, which answers and
  moves the outside world on.
\<close>

record ('p, 'n) producer_env =
  Marshal :: "'p \<Rightarrow> error + bytes"
  now_utc :: "'n \<Rightarrow> Time"
  WriteMessages :: "'n Context \<Rightarrow> Writer \<Rightarrow> Message \<Rightarrow> 'n \<Rightarrow> error option \<times> 'n"

definition NewProducer :: "string list \<Rightarrow> Producer" where
  "NewProducer bs = \<lparr>writers = Map.empty, brokers = bs\<rparr>"

text \<open>
  \<open>getWriter\<close> is two steps with nothing between them that excludes another caller: the
  map lookup of line 31, and the allocation and map store of lines 34 to 41.
\<close>

definition getWriter_lookup :: "Producer \<Rightarrow> string \<Rightarrow> Writer option" where
  "getWriter_lookup p topic = writers p topic"

definition getWriter_create :: "Producer \<Rightarrow> string \<Rightarrow> Writer list \<Rightarrow> Writer \<times> Producer \<times> Writer list" where
  "getWriter_create p topic h =
     (let w = \<lparr>ptr = length h, Addr = brokers p, Topic = topic, Balancer = LeastBytes,
                BatchTimeout = 10 * Millisecond, RequiredAcks = RequireOne\<rparr>
      in (w, p\<lparr>writers := (writers p)(topic \<mapsto> w)\<rparr>, h @ [w]))"

definition getWriter :: "Producer \<Rightarrow> string \<Rightarrow> Writer list \<Rightarrow> Writer \<times> Producer \<times> Writer list" where
  "getWriter p topic h =
     (case getWriter_lookup p topic of
        Some w \<Rightarrow> (w, p, h)
      | None \<Rightarrow> getWriter_create p topic h)"

definition Publish ::
  "('p, 'n) producer_env \<Rightarrow> 'n Context \<Rightarrow> string \<Rightarrow> string \<Rightarrow> 'p \<Rightarrow>
     Producer \<times> 'n world \<Rightarrow> error option \<times> Producer \<times> 'n world" where
  "Publish E ctx topic key payload = (\<lambda>(p, W).
     case Marshal E payload of
       Inl err \<Rightarrow> (Some (Wrap ''failed to marshal payload'' err), p, W)
     | Inr dat \<Rightarrow>
         (case getWriter p topic (created W) of (writer, p', h') \<Rightarrow>
            let msg = \<lparr>Key = key, Value = dat, MsgTime = now_utc E (net W), Offset = 0\<rparr> in
            (case WriteMessages E ctx writer msg (net W) of (r, n') \<Rightarrow>
               let W' = emit (EvWrite writer msg r) (W\<lparr>created := h', net := n'\<rparr>) in
               (case r of
                  Some err \<Rightarrow>
                    (Some (Wrap (''failed to publish to '' @ topic) err), p',
                     emit (EvLog (Log ErrorLevel ''failed to publish message''
                             [ZString ''topic'' topic, ZString ''key'' key, ZError err])) W')
                | None \<Rightarrow>
                    (None, p',
                     emit (EvLog (Log DebugLevel ''message published''
                             [ZString ''topic'' topic, ZString ''key'' key])) W')))))"

text \<open>
  The payload of \<open>Publish\<close> is an \<^verbatim>\<open>interface{}\<close>: any type \<open>'p\<close>, with the \<^verbatim>\<open>json.Marshal\<close>
  of that type. \<open>PublishEvent\<close> passes a \<open>CloudEvent\<close>.
\<close>

definition PublishEvent ::
  "(CloudEvent, 'n) producer_env \<Rightarrow> 'n Context \<Rightarrow> string \<Rightarrow> CloudEvent \<Rightarrow>
     Producer \<times> 'n world \<Rightarrow> error option \<times> Producer \<times> 'n world" where
  "PublishEvent E ctx topic event = Publish E ctx topic (ID event) event"

text \<open>Publishing one payload after another on the same producer, as a caller's loop does.\<close>

fun Publish_all ::
  "('p, 'n) producer_env \<Rightarrow> 'n Context \<Rightarrow> (string \<times> string \<times> 'p) list \<Rightarrow>
     Producer \<times> 'n world \<Rightarrow> error option list \<times> Producer \<times> 'n world" where
  "Publish_all E ctx [] s = ([], s)"
| "Publish_all E ctx ((topic, key, payload) # rest) s =
     (case Publish E ctx topic key payload s of (r, s') \<Rightarrow>
        (case Publish_all E ctx rest s' of (rs, s'') \<Rightarrow> (r # rs, s'')))"

text \<open>The writers allocated for a topic: the connection-creation events of that topic.\<close>

definition created_for :: "string \<Rightarrow> Writer list \<Rightarrow> Writer list" where
  "created_for topic h = filter (\<lambda>w. Topic w = topic) h"

text \<open>
  One connection for each topic name: the writers ever allocated for a topic are the one
  the map holds for it, and none when the map has no entry.
\<close>

definition one_writer_per_topic :: "Producer \<Rightarrow> Writer list \<Rightarrow> bool" where
  "one_writer_per_topic p h =
     (\<forall>topic. created_for topic h = (case writers p topic of None \<Rightarrow> [] | Some w \<Rightarrow> [w]))"

fun written_with :: "event list \<Rightarrow> Writer list" where
  "written_with [] = []"
| "written_with (EvWrite w m r # es) = w # written_with es"
| "written_with (e # es) = written_with es"

subsection \<open>producer.go under concurrent callers\<close>

text \<open>
  \<open>Producer\<close> has no lock, and \<open>getWriter\<close> takes none: a caller can be between the lookup
  and the store while another runs. A call in progress is \<open>Start\<close> before the lookup of
  line 31, \<open>Missed\<close> after a lookup that found nothing (about to run lines 34 to 41), and
  \<open>Returned\<close> with its writer. The steps of different callers interleave in any order;
  each step is taken as atomic, which is the least a scheduler can do to the code.
\<close>

datatype call_state = Start string | Missed string | Returned Writer

fun getWriter_step :: "call_state \<Rightarrow> Producer \<times> Writer list \<Rightarrow> call_state \<times> Producer \<times> Writer list" where
  "getWriter_step (Start topic) (p, h) =
     (case getWriter_lookup p topic of
        Some w \<Rightarrow> (Returned w, p, h)
      | None \<Rightarrow> (Missed topic, p, h))"
| "getWriter_step (Missed topic) (p, h) =
     (case getWriter_create p topic h of (w, p', h') \<Rightarrow> (Returned w, p', h'))"
| "getWriter_step (Returned w) (p, h) = (Returned w, p, h)"

text \<open>A schedule names, step by step, the caller that moves.\<close>

fun run_schedule ::
  "nat list \<Rightarrow> call_state list \<times> Producer \<times> Writer list \<Rightarrow> call_state list \<times> Producer \<times> Writer list" where
  "run_schedule [] s = s"
| "run_schedule (i # sched) (cs, p, h) =
     (if i < length cs
      then (case getWriter_step (cs ! i) (p, h) of
              (c', p', h') \<Rightarrow> run_schedule sched (cs[i := c'], p', h'))
      else run_schedule sched (cs, p, h))"

text \<open>Callers that do not overlap: each one named runs both its steps before the next.\<close>

definition one_after_another :: "nat list \<Rightarrow> nat list" where
  "one_after_another order = concat (map (\<lambda>i. [i, i]) order)"

text \<open>
  What holds between non-overlapping calls for a topic: one writer per topic, and every
  caller either has not started or has returned the writer the map holds.
\<close>

definition callers_ok :: "string \<Rightarrow> call_state list \<times> Producer \<times> Writer list \<Rightarrow> bool" where
  "callers_ok topic s = (case s of (cs, p, h) \<Rightarrow>
     one_writer_per_topic p h \<and>
     (\<forall>c \<in> set cs. c = Start topic \<or> (\<exists>w. c = Returned w \<and> writers p topic = Some w)))"

subsection \<open>consumer.go\<close>

record Consumer =
  topic :: string
  groupID :: string

text \<open>
  The reader of the consumer: \<^verbatim>\<open>FetchMessage\<close> and \<^verbatim>\<open>CommitMessages\<close> answer and move the
  outside world on, and so does the handler the caller supplies. Whatever happens while
  a call blocks (the caller cancelling the context, say) is part of that call's move.
\<close>

record 'n reader =
  FetchMessage :: "'n Context \<Rightarrow> 'n \<Rightarrow> (error + Message) \<times> 'n"
  CommitMessages :: "'n Context \<Rightarrow> Message \<Rightarrow> 'n \<Rightarrow> error option \<times> 'n"

type_synonym 'n MessageHandler = "'n Context \<Rightarrow> Message \<Rightarrow> 'n \<Rightarrow> error option \<times> 'n"

text \<open>
  The \<^verbatim>\<open>for\<close> loop of \<open>Consume\<close> has no exit but its two \<^verbatim>\<open>return\<close>s, so it is run on fuel,
  one unit for each iteration: \<open>None\<close> says that the loop is still running when the fuel
  is spent, \<open>Some e\<close> that \<open>Consume\<close> has returned \<open>e\<close>.
\<close>

fun Consume_loop ::
  "'n reader \<Rightarrow> Consumer \<Rightarrow> 'n Context \<Rightarrow> 'n MessageHandler \<Rightarrow> nat \<Rightarrow> 'n world \<Rightarrow>
     error option \<times> 'n world" where
  "Consume_loop R c ctx handler 0 W = (None, W)"
| "Consume_loop R c ctx handler (Suc k) W =
     (case ctx (net W) of
        Some e \<Rightarrow>
          (Some e, emit (EvLog (Log InfoLevel ''consumer stopping'' [ZString ''topic'' (topic c)])) W)
      | None \<Rightarrow>
          (case FetchMessage R ctx (net W) of
             (Inl err, n1) \<Rightarrow>
               let W1 = emit (EvFetch (Inl err)) (W\<lparr>net := n1\<rparr>) in
               (case ctx n1 of
                  Some e \<Rightarrow> (Some e, W1)
                | None \<Rightarrow>
                    Consume_loop R c ctx handler k
                      (emit (EvLog (Log ErrorLevel ''failed to fetch message''
                               [ZString ''topic'' (topic c), ZError err])) W1))
           | (Inr msg, n1) \<Rightarrow>
               let W1 = emit (EvFetch (Inr msg)) (W\<lparr>net := n1\<rparr>) in
               (case handler ctx msg n1 of
                  (Some err, n2) \<Rightarrow>
                    Consume_loop R c ctx handler k
                      (emit (EvLog (Log ErrorLevel ''failed to handle message''
                               [ZString ''topic'' (topic c), ZInt64 ''offset'' (Offset msg), ZError err]))
                         (emit (EvHandle msg (Some err)) (W1\<lparr>net := n2\<rparr>)))
                | (None, n2) \<Rightarrow>
                    let W2 = emit (EvHandle msg None) (W1\<lparr>net := n2\<rparr>) in
                    (case CommitMessages R ctx msg n2 of
                       (Some err, n3) \<Rightarrow>
                         Consume_loop R c ctx handler k
                           (emit (EvLog (Log ErrorLevel ''failed to commit message''
                                    [ZString ''topic'' (topic c), ZInt64 ''offset'' (Offset msg), ZError err]))
                              (emit (EvCommit msg (Some err)) (W2\<lparr>net := n3\<rparr>)))
                     | (None, n3) \<Rightarrow>
                         Consume_loop R c ctx handler k
                           (emit (EvCommit msg None) (W2\<lparr>net := n3\<rparr>))))))"

definition Consume ::
  "'n reader \<Rightarrow> Consumer \<Rightarrow> 'n Context \<Rightarrow> 'n MessageHandler \<Rightarrow> nat \<Rightarrow> 'n world \<Rightarrow>
     error option \<times> 'n world" where
  "Consume R c ctx handler fuel W =
     Consume_loop R c ctx handler fuel
       (emit (EvLog (Log InfoLevel ''starting consumer''
                [ZString ''topic'' (topic c), ZString ''group'' (groupID c)])) W)"

text \<open>
  Reading the trace: each commit call stands right after the handler's call on the same
  message, and that call returned nil. \<open>prev\<close> is the event before the list.
\<close>

fun commits_follow_success :: "event \<Rightarrow> event list \<Rightarrow> bool" where
  "commits_follow_success prev [] = True"
| "commits_follow_success prev (EvCommit m r # es) =
     (prev = EvHandle m None \<and> commits_follow_success (EvCommit m r) es)"
| "commits_follow_success prev (e # es) = commits_follow_success e es"

text \<open>
  The contract of \<^verbatim>\<open>context.Context\<close> that the loop relies on: once \<^verbatim>\<open>Err\<close> has returned
  a non-nil error it returns the same error ever after, here across the handler's call
  and the commit call on a message.
\<close>

definition stays_cancelled ::
  "'n Context \<Rightarrow> error \<Rightarrow> 'n reader \<Rightarrow> 'n MessageHandler \<Rightarrow> Message \<Rightarrow> bool" where
  "stays_cancelled ctx e R handler msg =
     (\<forall>n. ctx n = Some e \<longrightarrow>
        ctx (snd (handler ctx msg n)) = Some e \<and>
        ctx (snd (CommitMessages R ctx msg n)) = Some e)"

fun is_commit :: "event \<Rightarrow> bool" where
  "is_commit (EvCommit m r) = True"
| "is_commit _ = False"

fun is_fetch :: "event \<Rightarrow> bool" where
  "is_fetch (EvFetch r) = True"
| "is_fetch _ = False"

section \<open>Test doubles\<close>

text \<open>
  Collaborators with fixed answers, on which the theorems below are run. The outside
  world is a counter of the calls answered so far. A payload is \<open>Some\<close> bytes that
  marshal to themselves, or \<open>None\<close>, a value \<^verbatim>\<open>json.Marshal\<close> rejects (a channel).
\<close>

definition Background :: "nat Context" where
  "Background = (\<lambda>n. None)"

definition flaky_broker :: "(bytes option, nat) producer_env" where
  "flaky_broker =
     \<lparr>Marshal = (\<lambda>pl. case pl of
                        None \<Rightarrow> Inl (Other ''json: unsupported type: chan int'')
                      | Some b \<Rightarrow> Inr b),
      now_utc = (\<lambda>n. int n),
      WriteMessages = (\<lambda>ctx w m n.
         (if n = 0 then Some (Other ''connection refused'') else None, Suc n))\<rparr>"

definition empty_world :: "nat world" where
  "empty_world = \<lparr>created = [], trace = [], net = 0\<rparr>"

text \<open>
  For the consumer: a context cancelled once the world has answered \<open>k\<close> calls; a reader
  whose fetch returns a transport error on the call numbered \<open>bad\<close>, the context's error
  when the context is cancelled by the end of the call, and the message at the
  uncommitted position otherwise; a reader that hands the message out whatever the
  context says; a handler that fails until the world has answered two calls.
\<close>

definition cancel_at :: "nat \<Rightarrow> nat Context" where
  "cancel_at k = (\<lambda>n. if k \<le> n then Some Canceled else None)"

definition order_msg :: Message where
  "order_msg = \<lparr>Key = ''123'', Value = ''{}'', MsgTime = 0, Offset = 7\<rparr>"

definition reader_failing_at :: "nat \<Rightarrow> nat reader" where
  "reader_failing_at bad =
     \<lparr>FetchMessage = (\<lambda>ctx n.
        (if n = bad then Inl (Other ''connection reset'')
         else (case ctx (Suc n) of Some e \<Rightarrow> Inl e | None \<Rightarrow> Inr order_msg),
         Suc n)),
      CommitMessages = (\<lambda>ctx m n. (None, Suc n))\<rparr>"

definition eager_reader :: "nat reader" where
  "eager_reader =
     \<lparr>FetchMessage = (\<lambda>ctx n. (Inr order_msg, Suc n)),
      CommitMessages = (\<lambda>ctx m n. (None, Suc n))\<rparr>"

definition fails_first :: "nat MessageHandler" where
  "fails_first = (\<lambda>ctx m n. (if n < 2 then Some (Other ''handler failed'') else None, Suc n))"

definition orders_consumer :: Consumer where
  "orders_consumer = \<lparr>topic = ''orders'', groupID = ''billing''\<rparr>"

text \<open>For \<open>PublishEvent\<close>: a broker that accepts every write, and an event to send.\<close>

definition accepting_broker :: "('p \<Rightarrow> error + bytes) \<Rightarrow> ('p, nat) producer_env" where
  "accepting_broker marshal =
     \<lparr>Marshal = marshal, now_utc = (\<lambda>n. int n),
      WriteMessages = (\<lambda>ctx w m n. (None, Suc n))\<rparr>"

definition order_created :: CloudEvent where
  "order_created =
     \<lparr>ID = ''e-1'', Source = ''order-service'', Type = ''order.created'', Time = 42,
      DataContentType = ''application/json'', Data = Some ''{}''\<rparr>"

text \<open>A time library that knows one instant and its RFC 3339 text.\<close>

definition one_instant :: time_lib where
  "one_instant =
     \<lparr>format_rfc3339 = (\<lambda>t. if t = 42 then Inr ''2024-03-01T12:00:00Z''
                             else Inl (Other ''instant not in the table'')),
      parse_rfc3339 = (\<lambda>s. if s = ''2024-03-01T12:00:00Z'' then Inr 42
                            else Inl (Other ''parsing time: text not in the table''))\<rparr>"



section \<open>package response: Paginated\<close>

text \<open>
  Go's \<^verbatim>\<open>int\<close> is taken at 64 bits, its size on every 64-bit target, so the conversion
  \<^verbatim>\<open>int(total)\<close> from \<^verbatim>\<open>int64\<close> is the identity. The operators \<^verbatim>\<open>/\<close> and \<^verbatim>\<open>%\<close> on
  signed integers truncate towards zero (\<open>sdiv\<close> and \<open>smod\<close> on \<open>int\<close>), wrap around at the
  word size, and panic at run time when the divisor is zero.
\<close>

type_synonym go_int = "64 word"
type_synonym go_int64 = "64 word"

definition int_quo :: "go_int \<Rightarrow> go_int \<Rightarrow> runtime_panic + go_int" where
  "int_quo a b =
     (if b = 0 then Inl IntegerDivideByZero else Inr (word_of_int (sint a sdiv sint b)))"

definition int_rem :: "go_int \<Rightarrow> go_int \<Rightarrow> runtime_panic + go_int" where
  "int_rem a b =
     (if b = 0 then Inl IntegerDivideByZero else Inr (word_of_int (sint a smod sint b)))"

record pagination =
  pg_total :: go_int64
  pg_page :: go_int
  pg_limit :: go_int
  pg_total_pages :: go_int

record 'd paginated_body =
  success :: bool
  data :: 'd
  pagination :: pagination

text \<open>
  \<open>Paginated\<close> returns what it writes to the gin context: the status code and the JSON
  body, or the panic that leaves the function before anything is written.
\<close>

definition Paginated :: "'d \<Rightarrow> go_int64 \<Rightarrow> go_int \<Rightarrow> go_int \<Rightarrow> runtime_panic + nat \<times> 'd paginated_body" where
  "Paginated dat totl page limit =
     (case int_quo totl limit of
        Inl p \<Rightarrow> Inl p
      | Inr totalPages \<Rightarrow>
          (case int_rem totl limit of
             Inl p \<Rightarrow> Inl p
           | Inr r \<Rightarrow>
               let totalPages' = (if 0 <s r then totalPages + 1 else totalPages)
               in Inr (200, \<lparr>success = True, data = dat,
                     pagination = \<lparr>pg_total = totl, pg_page = page, pg_limit = limit,
                                    pg_total_pages = totalPages'\<rparr>\<rparr>)))"

section \<open>The producer: one writer per topic, and what a failed publish leaves\<close>

lemma created_for_append: "created_for t (h @ h') = created_for t h @ created_for t h'"
  by (simp add: created_for_def)

lemma getWriter_hit:
  "writers p tpc = Some w \<Longrightarrow> getWriter p tpc h = (w, p, h)"
  by (simp add: getWriter_def getWriter_lookup_def)

lemma getWriter_miss:
  "writers p tpc = None \<Longrightarrow> getWriter p tpc h = getWriter_create p tpc h"
  by (simp add: getWriter_def getWriter_lookup_def)

lemma getWriter_inv:
  assumes "one_writer_per_topic p h" "getWriter p tpc h = (w, p', h')"
  shows "one_writer_per_topic p' h' \<and> writers p' tpc = Some w \<and> created_for tpc h' = [w]
         \<and> (\<forall>t. t \<noteq> tpc \<longrightarrow> writers p' t = writers p t)
         \<and> (\<forall>w0. writers p tpc = Some w0 \<longrightarrow> w = w0 \<and> p' = p \<and> h' = h)
         \<and> brokers p' = brokers p"
proof (cases "writers p tpc")
  case None
  then have "created_for tpc h = []" using assms(1)
    by (auto simp: one_writer_per_topic_def split: option.splits)
  with None assms show ?thesis
    by (auto simp: getWriter_miss getWriter_create_def Let_def one_writer_per_topic_def created_for_append)
       (auto simp: created_for_def)
next
  case (Some w0)
  with assms show ?thesis
    by (auto simp: getWriter_hit one_writer_per_topic_def)
qed


lemma written_with_append: "written_with (xs @ ys) = written_with xs @ written_with ys"
  by (induction xs rule: written_with.induct) simp_all

lemma Publish_marshal_failed:
  "Marshal E payload = Inl err \<Longrightarrow>
     Publish E ctx tpc key payload (p, W) = (Some (Wrap ''failed to marshal payload'' err), p, W)"
  by (simp add: Publish_def)

lemma Publish_marshalled:
  assumes "Marshal E payload = Inr dat"
    and "getWriter p tpc (created W) = (w, p', h')"
    and "WriteMessages E ctx w \<lparr>Key = key, Value = dat, MsgTime = now_utc E (net W), Offset = 0\<rparr> (net W) = (r, n')"
  shows "\<exists>W'. Publish E ctx tpc key payload (p, W) =
           (map_option (Wrap (''failed to publish to '' @ tpc)) r, p', W') \<and>
         created W' = h' \<and> net W' = n' \<and>
         (\<exists>l. trace W' = trace W @ [EvWrite w \<lparr>Key = key, Value = dat, MsgTime = now_utc E (net W), Offset = 0\<rparr> r, EvLog l])"
  using assms by (cases r) (simp_all add: Publish_def Let_def emit_def)

lemma Publish_keeps_invariant:
  assumes "one_writer_per_topic p (created W)"
    and "Publish E ctx tpc key payload (p, W) = (r, p', W')"
  shows "one_writer_per_topic p' (created W')"
proof (cases "Marshal E payload")
  case (Inl err)
  with assms show ?thesis by (simp add: Publish_marshal_failed)
next
  case (Inr dat)
  obtain w p1 h1 where g: "getWriter p tpc (created W) = (w, p1, h1)"
    by (cases "getWriter p tpc (created W)") auto
  obtain r1 n1 where wr: "WriteMessages E ctx w \<lparr>Key = key, Value = dat, MsgTime = now_utc E (net W), Offset = 0\<rparr> (net W) = (r1, n1)"
    by (cases "WriteMessages E ctx w \<lparr>Key = key, Value = dat, MsgTime = now_utc E (net W), Offset = 0\<rparr> (net W)") auto
  from Publish_marshalled [OF Inr g wr] assms(2) have "p' = p1" "created W' = h1" by auto
  with getWriter_inv [OF assms(1) g] show ?thesis by simp
qed


lemma Publish_all_keeps_invariant:
  assumes "one_writer_per_topic p (created W)"
    and "Publish_all E ctx reqs (p, W) = (rs, p', W')"
  shows "one_writer_per_topic p' (created W')"
  using assms
proof (induction reqs arbitrary: p W rs p' W')
  case Nil
  then show ?case by simp
next
  case (Cons req reqs)
  obtain t key payload where req: "req = (t, key, payload)" by (rule prod_cases3)
  obtain r1 p1 W1 where pub: "Publish E ctx t key payload (p, W) = (r1, p1, W1)"
    by (rule prod_cases3)
  obtain rs1 p2 W2 where rest: "Publish_all E ctx reqs (p1, W1) = (rs1, p2, W2)"
    by (rule prod_cases3)
  from Cons.prems(2) have res: "p' = p2" "W' = W2" by (simp_all add: req pub rest)
  from Publish_keeps_invariant [OF Cons.prems(1) pub]
  have "one_writer_per_topic p1 (created W1)" .
  from Cons.IH [OF this rest] show ?case by (simp add: res)
qed

lemma Publish_all_unserializable:
  assumes "\<not> list_ex (\<lambda>req. \<not> isl (Marshal E (snd (snd req)))) reqs"
  shows "snd (Publish_all E ctx reqs (p, W)) = (p, W)"
  using assms
proof (induction reqs)
  case Nil
  then show ?case by simp
next
  case (Cons req reqs)
  obtain t key payload where req: "req = (t, key, payload)" by (rule prod_cases3)
  from Cons.prems have "isl (Marshal E payload)" by (simp add: req)
  then obtain err where m: "Marshal E payload = Inl err" by (cases "Marshal E payload") simp_all
  from Cons.prems have "\<not> list_ex (\<lambda>req. \<not> isl (Marshal E (snd (snd req)))) reqs" by simp
  from Cons.IH [OF this] show ?case
    by (cases "Publish_all E ctx reqs (p, W)") (simp add: req Publish_marshal_failed [OF m])
qed

lemma Publish_all_reuses:
  assumes "writers p tpc = Some w"
    and "list_all (\<lambda>req. fst req = tpc) reqs"
    and "Publish_all E ctx reqs (p, W) = (rs, p', W')"
  shows "p' = p \<and> created W' = created W \<and>
         (\<exists>tr. trace W' = trace W @ tr \<and>
            written_with tr =
              replicate (length (filter (\<lambda>req. \<not> isl (Marshal E (snd (snd req)))) reqs)) w)"
  using assms(2,3)
proof (induction reqs arbitrary: W rs p' W')
  case Nil
  then show ?case by simp
next
  case (Cons req reqs)
  obtain t key payload where req: "req = (t, key, payload)" by (rule prod_cases3)
  from Cons.prems(1) have t: "t = tpc" and all: "list_all (\<lambda>req. fst req = tpc) reqs"
    by (simp_all add: req)
  show ?case
  proof (cases "Marshal E payload")
    case (Inl err)
    from Cons.prems(2) have "Publish_all E ctx reqs (p, W) = (tl rs, p', W')"
      by (auto simp: req t Publish_marshal_failed [OF Inl] split: prod.splits)
    from Cons.IH [OF all this] show ?thesis by (simp add: req Inl)
  next
    case (Inr dat)
    have g: "getWriter p tpc (created W) = (w, p, created W)"
      using assms(1) by (rule getWriter_hit)
    obtain r1 n1 where wr: "WriteMessages E ctx w \<lparr>Key = key, Value = dat, MsgTime = now_utc E (net W), Offset = 0\<rparr> (net W) = (r1, n1)"
      by (rule prod.exhaust)
    from Publish_marshalled [OF Inr g wr] obtain W1 l where
      pub: "Publish E ctx tpc key payload (p, W) = (map_option (Wrap (''failed to publish to '' @ tpc)) r1, p, W1)"
      and W1: "created W1 = created W"
        "trace W1 = trace W @ [EvWrite w \<lparr>Key = key, Value = dat, MsgTime = now_utc E (net W), Offset = 0\<rparr> r1, EvLog l]"
      by (elim exE conjE)
    obtain rs1 p1 W2 where rest: "Publish_all E ctx reqs (p, W1) = (rs1, p1, W2)"
      by (rule prod_cases3)
    from Cons.IH [OF all rest] obtain tr where
      ih: "p1 = p" "created W2 = created W1" "trace W2 = trace W1 @ tr"
        "written_with tr = replicate (length (filter (\<lambda>req. \<not> isl (Marshal E (snd (snd req)))) reqs)) w"
      by (elim exE conjE)
    from Cons.prems(2) pub rest have res: "p' = p1" "W' = W2" by (simp_all add: req t)
    show ?thesis
      using ih W1 by (simp add: res req Inr written_with_append)
  qed
qed


lemma Publish_all_first_serializable:
  assumes "writers p tpc = None"
    and "list_all (\<lambda>req. fst req = tpc) reqs"
    and "list_ex (\<lambda>req. \<not> isl (Marshal E (snd (snd req)))) reqs"
    and "Publish_all E ctx reqs (p, W) = (rs, p', W')"
  shows "\<exists>w tr. created W' = created W @ [w] \<and> ptr w = length (created W) \<and>
           writers p' tpc = Some w \<and> trace W' = trace W @ tr \<and>
           written_with tr =
             replicate (length (filter (\<lambda>req. \<not> isl (Marshal E (snd (snd req)))) reqs)) w"
  using assms(2,3,4)
proof (induction reqs arbitrary: rs)
  case Nil
  then show ?case by simp
next
  case (Cons req reqs)
  obtain t key payload where req: "req = (t, key, payload)" by (rule prod_cases3)
  from Cons.prems(1) have t: "t = tpc" and all: "list_all (\<lambda>req. fst req = tpc) reqs"
    by (simp_all add: req)
  show ?case
  proof (cases "Marshal E payload")
    case (Inl err)
    from Cons.prems(3) have run: "Publish_all E ctx reqs (p, W) = (tl rs, p', W')"
      by (auto simp: req t Publish_marshal_failed [OF Inl] split: prod.splits)
    from Cons.prems(2) have ex: "list_ex (\<lambda>req. \<not> isl (Marshal E (snd (snd req)))) reqs"
      by (simp add: req Inl)
    from Cons.IH [OF all ex run] show ?thesis by (simp add: req Inl)
  next
    case (Inr dat)
    define w where "w = \<lparr>ptr = length (created W), Addr = brokers p, Topic = tpc, Balancer = LeastBytes,
                BatchTimeout = 10 * Millisecond, RequiredAcks = RequireOne\<rparr>"
    define p1 where "p1 = p\<lparr>writers := (writers p)(tpc \<mapsto> w)\<rparr>"
    have g: "getWriter p tpc (created W) = (w, p1, created W @ [w])"
      using assms(1) by (simp add: getWriter_miss getWriter_create_def Let_def w_def p1_def)
    have entry: "writers p1 tpc = Some w" by (simp add: p1_def)
    obtain r1 n1 where wr: "WriteMessages E ctx w \<lparr>Key = key, Value = dat, MsgTime = now_utc E (net W), Offset = 0\<rparr> (net W) = (r1, n1)"
      by (rule prod.exhaust)
    from Publish_marshalled [OF Inr g wr] obtain W1 l where
      pub: "Publish E ctx tpc key payload (p, W) = (map_option (Wrap (''failed to publish to '' @ tpc)) r1, p1, W1)"
      and W1: "created W1 = created W @ [w]"
        "trace W1 = trace W @ [EvWrite w \<lparr>Key = key, Value = dat, MsgTime = now_utc E (net W), Offset = 0\<rparr> r1, EvLog l]"
      by (elim exE conjE)
    obtain rs1 p2 W2 where rest: "Publish_all E ctx reqs (p1, W1) = (rs1, p2, W2)"
      by (rule prod_cases3)
    from Publish_all_reuses [OF entry all rest] obtain tr where
      later: "p2 = p1" "created W2 = created W1" "trace W2 = trace W1 @ tr"
        "written_with tr = replicate (length (filter (\<lambda>req. \<not> isl (Marshal E (snd (snd req)))) reqs)) w"
      by (elim exE conjE)
    from Cons.prems(3) pub rest have res: "p' = p2" "W' = W2" by (simp_all add: req t)
    have pw: "ptr w = length (created W)" by (simp add: w_def)
    show ?thesis
      apply (rule exI [of _ w])
      apply (rule exI [of _ "[EvWrite w \<lparr>Key = key, Value = dat, MsgTime = now_utc E (net W), Offset = 0\<rparr> r1, EvLog l] @ tr"])
      using later W1 entry pw by (simp add: res req Inr written_with_append)
  qed
qed

text \<open>
  One publish to \<open>orders\<close> on a new producer, with a payload that \<^verbatim>\<open>json.Marshal\<close> rejects
  (a channel, say): \<open>Publish\<close> returns the wrapped marshal error before it reaches
  \<open>getWriter\<close>, so after \<open>N = 1\<close> publishes no writer has been created for the topic and
  the map holds no entry for it.
\<close>

theorem unserializable_publish_creates_no_writer:
  "Publish_all flaky_broker Background [(''orders'', ''123'', None)]
       (NewProducer [''kafka:9092''], empty_world) =
     ([Some (Wrap ''failed to marshal payload'' (Other ''json: unsupported type: chan int''))],
      NewProducer [''kafka:9092''], empty_world) \<and>
   created_for ''orders'' (created (snd (snd (Publish_all flaky_broker Background
       [(''orders'', ''123'', None)] (NewProducer [''kafka:9092''], empty_world))))) = [] \<and>
   writers (fst (snd (Publish_all flaky_broker Background
       [(''orders'', ''123'', None)] (NewProducer [''kafka:9092''], empty_world)))) ''orders'' = None"
  by (simp add: Publish_def flaky_broker_def NewProducer_def empty_world_def created_for_def)

text \<open>
  Claim C5, as the code has it. \<open>Publish\<close> serializes the payload first and returns on a
  marshal error without calling \<open>getWriter\<close>, so only the publishes whose payload
  serializes count. On a producer that holds one writer per topic (a new producer does),
  take any sequence of publishes in a row to the same topic. If at least one of the
  payloads serializes, then afterwards exactly one writer has ever been created for the
  topic, it is the one the map holds, and every write (one per payload that serializes)
  went through it; when the topic was unseen, the first such publish allocated that
  writer and nothing else was allocated; when it was seen, nothing was allocated at all.
  If none of the payloads serializes, the producer, its map and the world are unchanged:
  no writer is created.
\<close>

theorem one_writer_once_a_publish_serializes:
  assumes "one_writer_per_topic p (created W)"
    and "list_all (\<lambda>req. fst req = tpc) reqs"
    and "Publish_all E ctx reqs (p, W) = (rs, p', W')"
  shows "(list_ex (\<lambda>req. \<not> isl (Marshal E (snd (snd req)))) reqs \<longrightarrow>
           (\<exists>w tr. created_for tpc (created W') = [w] \<and> writers p' tpc = Some w \<and>
              one_writer_per_topic p' (created W') \<and>
              trace W' = trace W @ tr \<and>
              written_with tr =
                replicate (length (filter (\<lambda>req. \<not> isl (Marshal E (snd (snd req)))) reqs)) w \<and>
              (case writers p tpc of
                 None \<Rightarrow> created W' = created W @ [w] \<and> ptr w = length (created W)
               | Some w0 \<Rightarrow> created W' = created W \<and> w = w0))) \<and>
         (\<not> list_ex (\<lambda>req. \<not> isl (Marshal E (snd (snd req)))) reqs \<longrightarrow> p' = p \<and> W' = W)"
proof (rule conjI; rule impI)
  assume ex: "list_ex (\<lambda>req. \<not> isl (Marshal E (snd (snd req)))) reqs"
  have inv': "one_writer_per_topic p' (created W')"
    using assms(1,3) by (rule Publish_all_keeps_invariant)
  have one: "\<And>w. writers p' tpc = Some w \<Longrightarrow> created_for tpc (created W') = [w]"
  proof -
    fix w assume "writers p' tpc = Some w"
    moreover from inv' have "created_for tpc (created W') =
        (case writers p' tpc of None \<Rightarrow> [] | Some w \<Rightarrow> [w])"
      by (simp add: one_writer_per_topic_def)
    ultimately show "created_for tpc (created W') = [w]" by simp
  qed
  show "\<exists>w tr. created_for tpc (created W') = [w] \<and> writers p' tpc = Some w \<and>
              one_writer_per_topic p' (created W') \<and>
              trace W' = trace W @ tr \<and>
              written_with tr =
                replicate (length (filter (\<lambda>req. \<not> isl (Marshal E (snd (snd req)))) reqs)) w \<and>
              (case writers p tpc of
                 None \<Rightarrow> created W' = created W @ [w] \<and> ptr w = length (created W)
               | Some w0 \<Rightarrow> created W' = created W \<and> w = w0)"
  proof (cases "writers p tpc")
    case None
    from Publish_all_first_serializable [OF None assms(2) ex assms(3)] obtain w tr where
      f: "created W' = created W @ [w]" "ptr w = length (created W)" "writers p' tpc = Some w"
        "trace W' = trace W @ tr"
        "written_with tr = replicate (length (filter (\<lambda>req. \<not> isl (Marshal E (snd (snd req)))) reqs)) w"
      by (elim exE conjE)
    show ?thesis
      apply (rule exI [of _ w])
      apply (rule exI [of _ tr])
      using f one [OF f(3)] inv' None by simp
  next
    case (Some w0)
    from Publish_all_reuses [OF Some assms(2,3)] obtain tr where
      f: "p' = p" "created W' = created W" "trace W' = trace W @ tr"
        "written_with tr = replicate (length (filter (\<lambda>req. \<not> isl (Marshal E (snd (snd req)))) reqs)) w0"
      by (elim exE conjE)
    have e: "writers p' tpc = Some w0" using Some f(1) by simp
    show ?thesis
      apply (rule exI [of _ w0])
      apply (rule exI [of _ tr])
      using f(2,3,4) e one [OF e] inv' Some by simp
  qed
next
  assume "\<not> list_ex (\<lambda>req. \<not> isl (Marshal E (snd (snd req)))) reqs"
  from Publish_all_unserializable [OF this, of ctx p W] assms(3)
  show "p' = p \<and> W' = W" by simp
qed

theorem one_writer_once_a_publish_serializes_witness:
  "one_writer_per_topic (NewProducer [''kafka:9092'']) (created empty_world) \<and>
   list_all (\<lambda>req. fst req = ''orders'')
     [(''orders'', ''0'', None), (''orders'', ''1'', Some ''{}''), (''orders'', ''2'', Some ''[]'')] \<and>
   list_ex (\<lambda>req. \<not> isl (Marshal flaky_broker (snd (snd req))))
     [(''orders'', ''0'', None), (''orders'', ''1'', Some ''{}''), (''orders'', ''2'', Some ''[]'')] \<and>
   (\<exists>w tr. created_for ''orders'' (created (snd (snd (Publish_all flaky_broker Background
        [(''orders'', ''0'', None), (''orders'', ''1'', Some ''{}''), (''orders'', ''2'', Some ''[]'')]
        (NewProducer [''kafka:9092''], empty_world))))) = [w] \<and> ptr w = 0 \<and>
      trace (snd (snd (Publish_all flaky_broker Background
        [(''orders'', ''0'', None), (''orders'', ''1'', Some ''{}''), (''orders'', ''2'', Some ''[]'')]
        (NewProducer [''kafka:9092''], empty_world)))) = tr \<and> written_with tr = [w, w]) \<and>
   \<not> list_ex (\<lambda>req. \<not> isl (Marshal flaky_broker (snd (snd req)))) [(''orders'', ''0'', None)] \<and>
   snd (Publish_all flaky_broker Background [(''orders'', ''0'', None)]
        (NewProducer [''kafka:9092''], empty_world)) = (NewProducer [''kafka:9092''], empty_world)"
proof -
  let ?reqs = "[(''orders'', ''0'', None), (''orders'', ''1'', Some ''{}''), (''orders'', ''2'', Some ''[]'')]"
  have inv: "one_writer_per_topic (NewProducer [''kafka:9092'']) (created empty_world)"
    by (simp add: one_writer_per_topic_def NewProducer_def empty_world_def created_for_def)
  have same: "list_all (\<lambda>req. fst req = ''orders'') ?reqs" by simp
  have ex: "list_ex (\<lambda>req. \<not> isl (Marshal flaky_broker (snd (snd req)))) ?reqs"
    by (simp add: flaky_broker_def)
  have cnt: "length (filter (\<lambda>req. \<not> isl (Marshal flaky_broker (snd (snd req)))) ?reqs) = 2"
    by (simp add: flaky_broker_def)
  have unseen: "writers (NewProducer [''kafka:9092'']) ''orders'' = None"
    "created empty_world = []" "trace empty_world = []"
    by (simp_all add: NewProducer_def empty_world_def)
  obtain rs p' W' where run: "Publish_all flaky_broker Background ?reqs
        (NewProducer [''kafka:9092''], empty_world) = (rs, p', W')"
    by (rule prod_cases3)
  from one_writer_once_a_publish_serializes [OF inv same run, THEN conjunct1, rule_format, OF ex]
  obtain w tr where f: "created_for ''orders'' (created W') = [w]" "trace W' = trace empty_world @ tr"
    "written_with tr = replicate (length (filter (\<lambda>req. \<not> isl (Marshal flaky_broker (snd (snd req)))) ?reqs)) w"
    "case writers (NewProducer [''kafka:9092'']) ''orders'' of
                 None \<Rightarrow> created W' = created empty_world @ [w] \<and> ptr w = length (created empty_world)
               | Some w0 \<Rightarrow> created W' = created empty_world \<and> w = w0"
    by (elim exE conjE)
  from f(4) have pw: "ptr w = 0" by (simp add: unseen)
  from f(3) have ww: "written_with tr = [w, w]" unfolding cnt by (simp add: numeral_2_eq_2)
  have first: "\<exists>w tr. created_for ''orders'' (created (snd (snd (Publish_all flaky_broker Background ?reqs
        (NewProducer [''kafka:9092''], empty_world))))) = [w] \<and> ptr w = 0 \<and>
      trace (snd (snd (Publish_all flaky_broker Background ?reqs
        (NewProducer [''kafka:9092''], empty_world)))) = tr \<and> written_with tr = [w, w]"
    unfolding run
    apply (rule exI [of _ w])
    apply (rule exI [of _ tr])
    using f(1,2) pw ww by (simp add: unseen)
  have nex: "\<not> list_ex (\<lambda>req. \<not> isl (Marshal flaky_broker (snd (snd req)))) [(''orders'', ''0'', None)]"
    by (simp add: flaky_broker_def)
  have inv1: "list_all (\<lambda>req. fst req = ''orders'') [(''orders'', ''0'', None :: bytes option)]" by simp
  obtain rs1 p1 W1 where run1: "Publish_all flaky_broker Background [(''orders'', ''0'', None)]
        (NewProducer [''kafka:9092''], empty_world) = (rs1, p1, W1)"
    by (rule prod_cases3)
  from one_writer_once_a_publish_serializes [OF inv inv1 run1, THEN conjunct2, rule_format, OF nex]
  have second: "snd (Publish_all flaky_broker Background [(''orders'', ''0'', None)]
        (NewProducer [''kafka:9092''], empty_world)) = (NewProducer [''kafka:9092''], empty_world)"
    unfolding run1 by simp
  from inv same ex first nex second show ?thesis by (intro conjI)
qed

text \<open>
  Claim C9. When \<^verbatim>\<open>json.Marshal\<close> rejects the payload, \<open>Publish\<close> returns that error wrapped
  and nothing else has happened: the producer with its map, the writers allocated, the
  trace of calls (no write, no log) and the outside world are the ones it was given.
\<close>

theorem Publish_marshal_error_is_atomic:
  assumes "Marshal E payload = Inl err"
  shows "Publish E ctx tpc key payload (p, W) = (Some (Wrap ''failed to marshal payload'' err), p, W) \<and>
         unwrap (Wrap ''failed to marshal payload'' err) = Some err"
  using assms by (simp add: Publish_def)

theorem Publish_marshal_error_is_atomic_witness:
  "Marshal flaky_broker None = Inl (Other ''json: unsupported type: chan int'') \<and>
   Publish flaky_broker Background ''orders'' ''123'' None (NewProducer [''kafka:9092''], empty_world) =
     (Some (Wrap ''failed to marshal payload'' (Other ''json: unsupported type: chan int'')),
      NewProducer [''kafka:9092''], empty_world)"
proof -
  have m: "Marshal flaky_broker None = Inl (Other ''json: unsupported type: chan int'')"
    by (simp add: flaky_broker_def)
  from Publish_marshal_error_is_atomic [OF m] m show ?thesis by blast
qed

text \<open>
  Claim C6. When \<^verbatim>\<open>WriteMessages\<close> fails, \<open>Publish\<close> returns the transport error wrapped,
  and the producer it leaves is the one \<open>getWriter\<close> returned: the failure takes nothing
  out of the map. The topic's entry is there, every entry the map had before is there
  unchanged, and the next \<open>getWriter\<close> for the topic finds the same writer and creates
  none.
\<close>

theorem Publish_write_error_keeps_connection:
  assumes "Marshal E payload = Inr dat"
    and "getWriter p tpc (created W) = (w, p1, h1)"
    and "WriteMessages E ctx w \<lparr>Key = key, Value = dat, MsgTime = now_utc E (net W), Offset = 0\<rparr> (net W) = (Some err, n')"
  shows "\<exists>W'. Publish E ctx tpc key payload (p, W) =
                 (Some (Wrap (''failed to publish to '' @ tpc) err), p1, W') \<and>
              unwrap (Wrap (''failed to publish to '' @ tpc) err) = Some err \<and>
              created W' = h1 \<and>
              writers p1 tpc = Some w \<and>
              (\<forall>t w0. writers p t = Some w0 \<longrightarrow> writers p1 t = Some w0) \<and>
              (\<forall>t. t \<noteq> tpc \<longrightarrow> writers p1 t = writers p t) \<and>
              (\<forall>h. getWriter p1 tpc h = (w, p1, h))"
proof -
  from Publish_marshalled [OF assms] obtain W' where
    pub: "Publish E ctx tpc key payload (p, W) = (Some (Wrap (''failed to publish to '' @ tpc) err), p1, W')"
    and h: "created W' = h1"
    by auto
  have entry: "writers p1 tpc = Some w"
    using assms(2)
    by (auto simp: getWriter_def getWriter_lookup_def getWriter_create_def Let_def split: option.splits)
  have kept: "\<forall>t w0. writers p t = Some w0 \<longrightarrow> writers p1 t = Some w0"
    using assms(2)
    by (auto simp: getWriter_def getWriter_lookup_def getWriter_create_def Let_def split: option.splits)
  have others: "\<forall>t. t \<noteq> tpc \<longrightarrow> writers p1 t = writers p t"
    using assms(2)
    by (auto simp: getWriter_def getWriter_lookup_def getWriter_create_def Let_def split: option.splits)
  have again: "\<forall>h. getWriter p1 tpc h = (w, p1, h)"
    using entry by (simp add: getWriter_hit)
  from pub h entry kept others again show ?thesis by simp
qed

theorem Publish_write_error_keeps_connection_witness:
  "\<exists>w p1 W'. Marshal flaky_broker (Some ''{}'') = Inr ''{}'' \<and>
     getWriter (NewProducer [''kafka:9092'']) ''orders'' (created empty_world) = (w, p1, [w]) \<and>
     WriteMessages flaky_broker Background w
        \<lparr>Key = ''123'', Value = ''{}'', MsgTime = now_utc flaky_broker (net empty_world), Offset = 0\<rparr>
        (net empty_world) = (Some (Other ''connection refused''), 1) \<and>
     Publish flaky_broker Background ''orders'' ''123'' (Some ''{}'') (NewProducer [''kafka:9092''], empty_world) =
       (Some (Wrap ''failed to publish to orders'' (Other ''connection refused'')), p1, W') \<and>
     writers p1 ''orders'' = Some w \<and>
     fst (Publish flaky_broker Background ''orders'' ''123'' (Some ''{}'') (p1, W')) = None \<and>
     created (snd (snd (Publish flaky_broker Background ''orders'' ''123'' (Some ''{}'') (p1, W')))) = [w]"
proof -
  define w where "w = \<lparr>ptr = 0, Addr = [''kafka:9092''], Topic = ''orders'', Balancer = LeastBytes,
                BatchTimeout = 10 * Millisecond, RequiredAcks = RequireOne\<rparr>"
  define p1 where "p1 = \<lparr>writers = [''orders'' \<mapsto> w], brokers = [''kafka:9092'']\<rparr>"
  have m: "Marshal flaky_broker (Some ''{}'') = Inr ''{}''"
    by (simp add: flaky_broker_def)
  have g: "getWriter (NewProducer [''kafka:9092'']) ''orders'' (created empty_world) = (w, p1, [w])"
    by (simp add: getWriter_def getWriter_lookup_def getWriter_create_def NewProducer_def
        empty_world_def w_def p1_def Let_def)
  have wr: "WriteMessages flaky_broker Background w
        \<lparr>Key = ''123'', Value = ''{}'', MsgTime = now_utc flaky_broker (net empty_world), Offset = 0\<rparr>
        (net empty_world) = (Some (Other ''connection refused''), 1)"
    by (simp add: flaky_broker_def empty_world_def)
  from Publish_write_error_keeps_connection [OF m g wr] obtain W' where
    pub: "Publish flaky_broker Background ''orders'' ''123'' (Some ''{}'') (NewProducer [''kafka:9092''], empty_world) =
       (Some (Wrap ''failed to publish to orders'' (Other ''connection refused'')), p1, W')"
    and e: "writers p1 ''orders'' = Some w" and c: "created W' = [w]"
    by auto
  have W': "net W' = 1"
    using pub by (simp add: Publish_def m g wr Let_def emit_def)
       (auto simp: empty_world_def)
  have retry: "fst (Publish flaky_broker Background ''orders'' ''123'' (Some ''{}'') (p1, W')) = None"
    "created (snd (snd (Publish flaky_broker Background ''orders'' ''123'' (Some ''{}'') (p1, W')))) = [w]"
    by (simp_all add: Publish_def m getWriter_hit [OF e] W' c Let_def emit_def flaky_broker_def)
  from m g wr pub e retry show ?thesis by blast
qed

text \<open>
  Claim C8. \<open>PublishEvent\<close> is \<open>Publish\<close> with the event's id as key and the event as
  payload: same result, same producer, same world. In particular the message written
  carries the id as its key and the marshalled event as its value.
\<close>

theorem PublishEvent_is_Publish_with_id_key:
  "PublishEvent E ctx tpc event (p, W) = Publish E ctx tpc (ID event) event (p, W) \<and>
   (\<forall>dat. Marshal E event = Inr dat \<longrightarrow>
      (\<exists>w r l. trace (snd (snd (PublishEvent E ctx tpc event (p, W)))) =
         trace W @ [EvWrite w \<lparr>Key = ID event, Value = dat, MsgTime = now_utc E (net W), Offset = 0\<rparr> r, EvLog l]))"
proof (intro conjI allI impI)
  show "PublishEvent E ctx tpc event (p, W) = Publish E ctx tpc (ID event) event (p, W)"
    by (simp add: PublishEvent_def)
next
  fix dat assume m: "Marshal E event = Inr dat"
  obtain w p1 h1 where g: "getWriter p tpc (created W) = (w, p1, h1)"
    by (rule prod_cases3)
  obtain r n1 where wr: "WriteMessages E ctx w \<lparr>Key = ID event, Value = dat, MsgTime = now_utc E (net W), Offset = 0\<rparr> (net W) = (r, n1)"
    by (rule prod.exhaust)
  from Publish_marshalled [OF m g wr]
  show "\<exists>w r l. trace (snd (snd (PublishEvent E ctx tpc event (p, W)))) =
         trace W @ [EvWrite w \<lparr>Key = ID event, Value = dat, MsgTime = now_utc E (net W), Offset = 0\<rparr> r, EvLog l]"
    by (auto simp: PublishEvent_def)
qed


theorem PublishEvent_is_Publish_with_id_key_witness:
  "Marshal (accepting_broker (\<lambda>ev. Inr (the (Data ev)))) order_created = Inr ''{}'' \<and>
   PublishEvent (accepting_broker (\<lambda>ev. Inr (the (Data ev)))) Background ''orders'' order_created
       (NewProducer [''kafka:9092''], empty_world) =
     Publish (accepting_broker (\<lambda>ev. Inr (the (Data ev)))) Background ''orders'' ''e-1'' order_created
       (NewProducer [''kafka:9092''], empty_world) \<and>
   (\<exists>w r l. trace (snd (snd (PublishEvent (accepting_broker (\<lambda>ev. Inr (the (Data ev)))) Background
         ''orders'' order_created (NewProducer [''kafka:9092''], empty_world)))) =
       [EvWrite w \<lparr>Key = ''e-1'', Value = ''{}'', MsgTime = 0, Offset = 0\<rparr> r, EvLog l])"
proof -
  let ?E = "accepting_broker (\<lambda>ev. Inr (the (Data ev)))"
  have m: "Marshal ?E order_created = Inr ''{}''"
    by (simp add: accepting_broker_def order_created_def)
  have v: "ID order_created = ''e-1''" "trace empty_world = []"
    "now_utc ?E (net empty_world) = 0"
    by (simp_all add: order_created_def empty_world_def accepting_broker_def)
  note inst = PublishEvent_is_Publish_with_id_key
    [of ?E Background "''orders''" order_created "NewProducer [''kafka:9092'']" empty_world]
  from inst have eq: "PublishEvent ?E Background ''orders'' order_created
       (NewProducer [''kafka:9092''], empty_world) =
     Publish ?E Background ''orders'' ''e-1'' order_created
       (NewProducer [''kafka:9092''], empty_world)"
    unfolding v by (rule conjunct1)
  from inst [THEN conjunct2, rule_format, OF m] have tr: "\<exists>w r l. trace (snd (snd (PublishEvent ?E Background
         ''orders'' order_created (NewProducer [''kafka:9092''], empty_world)))) =
       [EvWrite w \<lparr>Key = ''e-1'', Value = ''{}'', MsgTime = 0, Offset = 0\<rparr> r, EvLog l]"
    unfolding v by simp
  from m eq tr show ?thesis by blast
qed

section \<open>The producer under concurrent callers\<close>

lemma two_steps_are_getWriter:
  "getWriter p tpc h = (w, p', h') \<Longrightarrow>
   (case getWriter_step (Start tpc) (p, h) of (c, p1, h1) \<Rightarrow> getWriter_step c (p1, h1)) = (Returned w, p', h')"
  by (auto simp: getWriter_def split: option.splits prod.splits)

text \<open>
  Two callers publish for the first time to \<open>orders\<close> on a new producer, and both look the
  topic up before either stores: each allocates a writer, they return different ones,
  and the map keeps the second. Two connections have been created for the topic.
\<close>

theorem overlapping_first_calls_create_two:
  "run_schedule [0, 1, 0, 1] ([Start ''orders'', Start ''orders''], NewProducer [''kafka:9092''], []) =
     ([Returned \<lparr>ptr = 0, Addr = [''kafka:9092''], Topic = ''orders'', Balancer = LeastBytes,
                  BatchTimeout = 10000000, RequiredAcks = RequireOne\<rparr>,
       Returned \<lparr>ptr = 1, Addr = [''kafka:9092''], Topic = ''orders'', Balancer = LeastBytes,
                  BatchTimeout = 10000000, RequiredAcks = RequireOne\<rparr>],
      \<lparr>writers = [''orders'' \<mapsto> \<lparr>ptr = 1, Addr = [''kafka:9092''], Topic = ''orders'', Balancer = LeastBytes,
                  BatchTimeout = 10000000, RequiredAcks = RequireOne\<rparr>], brokers = [''kafka:9092'']\<rparr>,
      [\<lparr>ptr = 0, Addr = [''kafka:9092''], Topic = ''orders'', Balancer = LeastBytes,
                  BatchTimeout = 10000000, RequiredAcks = RequireOne\<rparr>,
       \<lparr>ptr = 1, Addr = [''kafka:9092''], Topic = ''orders'', Balancer = LeastBytes,
                  BatchTimeout = 10000000, RequiredAcks = RequireOne\<rparr>]) \<and>
   length (created_for ''orders'' (snd (snd (run_schedule [0, 1, 0, 1]
       ([Start ''orders'', Start ''orders''], NewProducer [''kafka:9092''], []))))) = 2"
  by (simp add: NewProducer_def getWriter_lookup_def getWriter_create_def Let_def created_for_def
      Millisecond_def)

lemma run_schedule_append:
  "run_schedule (a @ b) s = run_schedule b (run_schedule a s)"
proof (induction a arbitrary: s)
  case Nil
  then show ?case by simp
next
  case (Cons i a)
  obtain cs p h where s: "s = (cs, p, h)" by (rule prod_cases3)
  show ?case using Cons.IH by (simp add: s split: prod.splits)
qed

lemma run_schedule_length:
  "length (fst (run_schedule sched (cs, p, h))) = length cs"
proof (induction sched arbitrary: cs p h)
  case Nil
  then show ?case by simp
next
  case (Cons i sched)
  then show ?case by (simp split: prod.splits)
qed

lemma Returned_stays:
  "i < length cs \<Longrightarrow> cs ! i = Returned w \<Longrightarrow>
     fst (run_schedule sched (cs, p, h)) ! i = Returned w"
proof (induction sched arbitrary: cs p h)
  case Nil
  then show ?case by simp
next
  case (Cons j sched)
  show ?case
  proof (cases "j < length cs")
    case False
    then show ?thesis using Cons by simp
  next
    case True
    obtain c' p' h' where st: "getWriter_step (cs ! j) (p, h) = (c', p', h')" by (rule prod_cases3)
    have "(cs[j := c']) ! i = Returned w"
    proof (cases "j = i")
      case True
      with st Cons.prems show ?thesis by simp
    next
      case False
      with Cons.prems show ?thesis by simp
    qed
    with Cons.IH [of "cs[j := c']" p' h'] Cons.prems(1) True st show ?thesis by simp
  qed
qed


lemma getWriter_as_steps:
  assumes "getWriter p tpc h = (w, p', h')"
    and "i < length cs"
  shows "run_schedule [i, i] (cs[i := Start tpc], p, h) = (cs[i := Returned w], p', h')"
proof (cases "writers p tpc")
  case None
  with assms show ?thesis
    by (simp add: getWriter_def getWriter_lookup_def split: prod.splits)
next
  case (Some w0)
  with assms show ?thesis
    by (simp add: getWriter_def getWriter_lookup_def)
qed

lemma serial_step:
  assumes "callers_ok tpc (cs, p, h)" "i < length cs"
  shows "\<exists>cs' p' h' w. run_schedule [i, i] (cs, p, h) = (cs', p', h') \<and> callers_ok tpc (cs', p', h') \<and>
           cs' ! i = Returned w \<and>
           (\<forall>w0. writers p tpc = Some w0 \<longrightarrow> p' = p \<and> h' = h) \<and>
           (writers p tpc = None \<longrightarrow> h' = h @ [w] \<and> writers p' tpc = Some w)"
proof -
  have mem: "cs ! i \<in> set cs" using assms(2) by simp
  with assms(1) have ci: "cs ! i = Start tpc \<or> (\<exists>w. cs ! i = Returned w \<and> writers p tpc = Some w)"
    unfolding callers_ok_def by simp
  from assms(1) have inv: "one_writer_per_topic p h" by (simp add: callers_ok_def)
  from assms(1) have all: "\<forall>c \<in> set cs. c = Start tpc \<or> (\<exists>w. c = Returned w \<and> writers p tpc = Some w)"
    by (simp add: callers_ok_def)
  from ci show ?thesis
  proof
    assume st: "cs ! i = Start tpc"
    then have upd: "cs[i := Start tpc] = cs" by (metis list_update_id)
    obtain w p' h' where g: "getWriter p tpc h = (w, p', h')" by (rule prod_cases3)
    note gi = getWriter_inv [OF inv g]
    have run: "run_schedule [i, i] (cs, p, h) = (cs[i := Returned w], p', h')"
      using getWriter_as_steps [OF g assms(2)] upd by simp
    have keep: "\<forall>c \<in> set (cs[i := Returned w]). c = Start tpc \<or> (\<exists>w'. c = Returned w' \<and> writers p' tpc = Some w')"
    proof
      fix c assume "c \<in> set (cs[i := Returned w])"
      then have "c = Returned w \<or> c \<in> set cs"
        using set_update_subset_insert [of cs i "Returned w"] by blast
      then show "c = Start tpc \<or> (\<exists>w'. c = Returned w' \<and> writers p' tpc = Some w')"
      proof
        assume "c = Returned w"
        then show ?thesis using gi by simp
      next
        assume "c \<in> set cs"
        with all have "c = Start tpc \<or> (\<exists>w'. c = Returned w' \<and> writers p tpc = Some w')" by blast
        then show ?thesis using gi by blast
      qed
    qed
    have ok: "callers_ok tpc (cs[i := Returned w], p', h')"
      using gi keep by (simp add: callers_ok_def)
    have ret: "cs[i := Returned w] ! i = Returned w" using assms(2) by simp
    have same: "\<forall>w0. writers p tpc = Some w0 \<longrightarrow> p' = p \<and> h' = h" using gi by blast
    have fresh: "writers p tpc = None \<longrightarrow> h' = h @ [w] \<and> writers p' tpc = Some w"
      using g gi by (auto simp: getWriter_miss getWriter_create_def Let_def)
    show ?thesis
      apply (rule exI [of _ "cs[i := Returned w]"])
      apply (rule exI [of _ p'])
      apply (rule exI [of _ h'])
      apply (rule exI [of _ w])
      using run ok ret same fresh apply simp
      done
  next
    assume "\<exists>w. cs ! i = Returned w \<and> writers p tpc = Some w"
    then obtain w where r: "cs ! i = Returned w" "writers p tpc = Some w" by blast
    then have "cs[i := Returned w] = cs" by (metis list_update_id)
    then have "run_schedule [i, i] (cs, p, h) = (cs, p, h)"
      using assms(2) r(1) by simp
    then show ?thesis
      apply (intro exI [of _ cs] exI [of _ p] exI [of _ h] exI [of _ w])
      using assms(1) r apply simp
      done
  qed
qed



lemma serial_step':
  assumes "callers_ok tpc (cs, p, h)" "i < length cs"
  shows "callers_ok tpc (run_schedule [i, i] (cs, p, h))"
    and "\<exists>w. fst (run_schedule [i, i] (cs, p, h)) ! i = Returned w \<and>
          (writers p tpc = None \<longrightarrow>
             snd (snd (run_schedule [i, i] (cs, p, h))) = h @ [w] \<and>
             writers (fst (snd (run_schedule [i, i] (cs, p, h)))) tpc = Some w)"
    and "writers p tpc \<noteq> None \<longrightarrow> snd (run_schedule [i, i] (cs, p, h)) = (p, h)"
proof -
  from serial_step [OF assms] obtain cs1 p1 h1 w where
    step: "run_schedule [i, i] (cs, p, h) = (cs1, p1, h1)"
    and ok1: "callers_ok tpc (cs1, p1, h1)"
    and ret: "cs1 ! i = Returned w"
    and same: "\<forall>w0. writers p tpc = Some w0 \<longrightarrow> p1 = p \<and> h1 = h"
    and first: "writers p tpc = None \<longrightarrow> h1 = h @ [w] \<and> writers p1 tpc = Some w"
    by (elim exE conjE)
  show "callers_ok tpc (run_schedule [i, i] (cs, p, h))"
    by (simp only: step ok1)
  show "\<exists>w. fst (run_schedule [i, i] (cs, p, h)) ! i = Returned w \<and>
          (writers p tpc = None \<longrightarrow>
             snd (snd (run_schedule [i, i] (cs, p, h))) = h @ [w] \<and>
             writers (fst (snd (run_schedule [i, i] (cs, p, h)))) tpc = Some w)"
    unfolding step using ret first by (intro exI [of _ w]) simp
  show "writers p tpc \<noteq> None \<longrightarrow> snd (run_schedule [i, i] (cs, p, h)) = (p, h)"
    unfolding step using same by auto
qed


lemma serial_run:
  assumes "callers_ok tpc (cs, p, h)" "\<forall>i \<in> set order. i < length cs"
  shows "callers_ok tpc (run_schedule (one_after_another order) (cs, p, h)) \<and>
         (\<forall>i \<in> set order. \<exists>w. fst (run_schedule (one_after_another order) (cs, p, h)) ! i = Returned w) \<and>
         (writers p tpc \<noteq> None \<longrightarrow> snd (run_schedule (one_after_another order) (cs, p, h)) = (p, h)) \<and>
         (writers p tpc = None \<and> order \<noteq> [] \<longrightarrow>
            (\<exists>w. snd (snd (run_schedule (one_after_another order) (cs, p, h))) = h @ [w]))"
  using assms
proof (induction order arbitrary: cs p h)
  case Nil
  then show ?case by (simp add: one_after_another_def)
next
  case (Cons i order)
  from Cons.prems have i: "i < length cs" by simp
  obtain cs1 p1 h1 where step: "run_schedule [i, i] (cs, p, h) = (cs1, p1, h1)"
    by (rule prod_cases3)
  note st = serial_step' [OF Cons.prems(1) i, unfolded step fst_conv snd_conv]
  from st(2) obtain w where ret: "cs1 ! i = Returned w"
    and first: "writers p tpc = None \<longrightarrow> h1 = h @ [w] \<and> writers p1 tpc = Some w"
    by (elim exE conjE)
  have len1: "length cs1 = length cs"
    using run_schedule_length [of "[i, i]" cs p h] by (simp only: step fst_conv)
  have bound: "\<forall>j \<in> set order. j < length cs1" using Cons.prems(2) len1 by simp
  have split: "run_schedule (one_after_another (i # order)) (cs, p, h) =
               run_schedule (one_after_another order) (cs1, p1, h1)"
  proof -
    have "one_after_another (i # order) = [i, i] @ one_after_another order"
      by (simp add: one_after_another_def)
    then show ?thesis
      using run_schedule_append [of "[i, i]" "one_after_another order" "(cs, p, h)"]
      by (simp only: step)
  qed
  note ih = Cons.IH [OF st(1) bound]
  have a: "callers_ok tpc (run_schedule (one_after_another order) (cs1, p1, h1))"
    using ih by (rule conjunct1)
  have b0: "\<forall>j \<in> set order. \<exists>w. fst (run_schedule (one_after_another order) (cs1, p1, h1)) ! j = Returned w"
    using ih by (elim conjE)
  have c0: "writers p1 tpc \<noteq> None \<longrightarrow> snd (run_schedule (one_after_another order) (cs1, p1, h1)) = (p1, h1)"
    using ih by (elim conjE)
  have bi: "fst (run_schedule (one_after_another order) (cs1, p1, h1)) ! i = Returned w"
    using i len1 ret by (intro Returned_stays) simp_all
  have b: "\<forall>j \<in> set (i # order). \<exists>w. fst (run_schedule (one_after_another order) (cs1, p1, h1)) ! j = Returned w"
    using b0 bi by simp
  have c: "writers p tpc \<noteq> None \<longrightarrow> snd (run_schedule (one_after_another order) (cs1, p1, h1)) = (p, h)"
  proof
    assume n: "writers p tpc \<noteq> None"
    with st(3) have "p1 = p" "h1 = h" by simp_all
    with c0 n show "snd (run_schedule (one_after_another order) (cs1, p1, h1)) = (p, h)" by simp
  qed
  have d: "writers p tpc = None \<and> i # order \<noteq> [] \<longrightarrow>
            (\<exists>w. snd (snd (run_schedule (one_after_another order) (cs1, p1, h1))) = h @ [w])"
  proof
    assume "writers p tpc = None \<and> i # order \<noteq> []"
    with first have "h1 = h @ [w]" "writers p1 tpc = Some w" by simp_all
    with c0 show "\<exists>w. snd (snd (run_schedule (one_after_another order) (cs1, p1, h1))) = h @ [w]" by simp
  qed
  show ?case unfolding split using a b c d by (intro conjI)
qed


text \<open>
  Claim C2, as the code has it. Nothing excludes a second caller between the lookup and
  the store of \<open>getWriter\<close>, so what holds is this: when \<open>n \<ge> 1\<close> callers make their first
  call for a topic one after another, each call complete before the next starts, in any
  order, every caller returns the same writer, it is the only writer ever created for
  the topic, and the map holds it. (When calls overlap, the theorem above shows two.)
\<close>

theorem non_overlapping_first_calls_create_one:
  assumes "one_writer_per_topic p h"
    and "0 < n"
    and "set order = {..<n}"
  shows "\<exists>w p' h'. run_schedule (one_after_another order) (replicate n (Start tpc), p, h) =
             (replicate n (Returned w), p', h') \<and>
           created_for tpc h' = [w] \<and> writers p' tpc = Some w \<and>
           (case writers p tpc of None \<Rightarrow> h' = h @ [w] | Some w0 \<Rightarrow> h' = h \<and> w0 = w)"
proof -
  have ok: "callers_ok tpc (replicate n (Start tpc), p, h)"
    using assms(1) by (simp add: callers_ok_def)
  have bound: "\<forall>i \<in> set order. i < length (replicate n (Start tpc))"
    using assms(3) by simp
  obtain cs' p' h' where
    run: "run_schedule (one_after_another order) (replicate n (Start tpc), p, h) = (cs', p', h')"
    by (rule prod_cases3)
  note sr = serial_run [OF ok bound, unfolded run fst_conv snd_conv]
  have ok': "callers_ok tpc (cs', p', h')" using sr by (rule conjunct1)
  have ret: "\<forall>i \<in> set order. \<exists>w. cs' ! i = Returned w" using sr by (elim conjE)
  have same: "writers p tpc \<noteq> None \<longrightarrow> (p', h') = (p, h)" using sr by (elim conjE)
  have first: "writers p tpc = None \<and> order \<noteq> [] \<longrightarrow> (\<exists>w. h' = h @ [w])" using sr by (elim conjE)
  have len: "length cs' = n"
    using run_schedule_length [of "one_after_another order" "replicate n (Start tpc)" p h]
    by (simp only: run fst_conv length_replicate)
  from assms(2,3) have "0 \<in> set order" by simp
  with ret obtain w where w: "cs' ! 0 = Returned w" by blast
  have all: "\<forall>c \<in> set cs'. c = Start tpc \<or> (\<exists>w. c = Returned w \<and> writers p' tpc = Some w)"
    using ok' by (simp add: callers_ok_def)
  have "cs' ! 0 \<in> set cs'" using len assms(2) by simp
  with all w have entry: "writers p' tpc = Some w" by auto
  have each: "\<forall>i < n. cs' ! i = Returned w"
  proof (intro allI impI)
    fix i assume "i < n"
    with assms(3) ret obtain w' where w': "cs' ! i = Returned w'" by auto
    have "cs' ! i \<in> set cs'" using len \<open>i < n\<close> by simp
    with all w' have "writers p' tpc = Some w'" by auto
    with entry w' show "cs' ! i = Returned w" by simp
  qed
  have cs': "cs' = replicate n (Returned w)"
    using len each by (simp add: list_eq_iff_nth_eq)
  from ok' have inv: "one_writer_per_topic p' h'" by (simp add: callers_ok_def)
  then have "created_for tpc h' = (case writers p' tpc of None \<Rightarrow> [] | Some w \<Rightarrow> [w])"
    by (simp add: one_writer_per_topic_def)
  then have one: "created_for tpc h' = [w]"
    using entry by simp
  have "order \<noteq> []" using \<open>0 \<in> set order\<close> by auto
  have grow: "case writers p tpc of None \<Rightarrow> h' = h @ [w] | Some w0 \<Rightarrow> h' = h \<and> w0 = w"
  proof (cases "writers p tpc")
    case None
    with first \<open>order \<noteq> []\<close> obtain w1 where h': "h' = h @ [w1]" by blast
    from assms(1) have "created_for tpc h = (case writers p tpc of None \<Rightarrow> [] | Some w \<Rightarrow> [w])"
      by (simp add: one_writer_per_topic_def)
    with None have "created_for tpc h = []" by simp
    with one h' have "w1 = w"
      by (auto simp: created_for_def split: if_splits)
    with None h' show ?thesis by simp
  next
    case (Some w0)
    with same entry show ?thesis by simp
  qed
  show ?thesis
    apply (rule exI [of _ w])
    apply (rule exI [of _ p'])
    apply (rule exI [of _ h'])
    using cs' one entry grow apply (simp only: run)
    done
qed


theorem non_overlapping_first_calls_create_one_witness:
  "one_writer_per_topic (NewProducer [''kafka:9092'']) [] \<and> (0 :: nat) < 2 \<and> set [1, 0] = {..<2 :: nat} \<and>
   (\<exists>w p' h'. run_schedule (one_after_another [1, 0])
        (replicate 2 (Start ''orders''), NewProducer [''kafka:9092''], []) =
          (replicate 2 (Returned w), p', h') \<and>
      created_for ''orders'' h' = [w] \<and> writers p' ''orders'' = Some w \<and> h' = [w])"
proof -
  have inv: "one_writer_per_topic (NewProducer [''kafka:9092'']) []"
    by (simp add: one_writer_per_topic_def NewProducer_def created_for_def)
  have n: "(0 :: nat) < 2" by simp
  have cover: "set [1, 0] = {..<2 :: nat}" by auto
  have unseen: "writers (NewProducer [''kafka:9092'']) ''orders'' = None"
    by (simp add: NewProducer_def)
  from non_overlapping_first_calls_create_one [OF inv n cover, of "''orders''"] unseen
  have "\<exists>w p' h'. run_schedule (one_after_another [1, 0])
        (replicate 2 (Start ''orders''), NewProducer [''kafka:9092''], []) =
          (replicate 2 (Returned w), p', h') \<and>
      created_for ''orders'' h' = [w] \<and> writers p' ''orders'' = Some w \<and> h' = [w]"
    by simp
  with inv n cover show ?thesis by (intro conjI)
qed

section \<open>The consumer: commit after success, return on cancellation\<close>

lemma commits_follow_success_append:
  "commits_follow_success prev (xs @ ys) =
     (commits_follow_success prev xs \<and> commits_follow_success (last (prev # xs)) ys)"
  by (induction prev xs rule: commits_follow_success.induct) simp_all

lemma Consume_loop_trace:
  "\<exists>tr. trace (snd (Consume_loop R c ctx handler k W)) = trace W @ tr \<and>
        (\<forall>prev. commits_follow_success prev tr)"
proof (induction k arbitrary: W)
  case 0
  then show ?case by simp
next
  case (Suc k)
  show ?case
  proof (cases "ctx (net W)")
    case (Some e)
    then show ?thesis by (simp add: emit_def)
  next
    case None
    obtain f n1 where fetch: "FetchMessage R ctx (net W) = (f, n1)" by (rule prod.exhaust)
    show ?thesis
    proof (cases f)
      case (Inl err)
      show ?thesis
      proof (cases "ctx n1")
        case Some
        then show ?thesis using None fetch Inl by (simp add: emit_def)
      next
        case None': None
        let ?W1 = "emit (EvLog (Log ErrorLevel ''failed to fetch message''
                               [ZString ''topic'' (topic c), ZError err])) (emit (EvFetch (Inl err)) (W\<lparr>net := n1\<rparr>))"
        from Suc.IH [of ?W1] obtain tr where
          "trace (snd (Consume_loop R c ctx handler k ?W1)) = trace ?W1 @ tr"
          "\<forall>prev. commits_follow_success prev tr" by blast
        then show ?thesis using None fetch Inl None'
          by (simp add: emit_def commits_follow_success_append)
      qed
    next
      case (Inr msg)
      obtain hr n2 where h: "handler ctx msg n1 = (hr, n2)" by (rule prod.exhaust)
      show ?thesis
      proof (cases hr)
        case (Some err)
        let ?W1 = "emit (EvLog (Log ErrorLevel ''failed to handle message''
                               [ZString ''topic'' (topic c), ZInt64 ''offset'' (Offset msg), ZError err]))
                         (emit (EvHandle msg (Some err)) ((emit (EvFetch (Inr msg)) (W\<lparr>net := n1\<rparr>))\<lparr>net := n2\<rparr>))"
        from Suc.IH [of ?W1] obtain tr where
          "trace (snd (Consume_loop R c ctx handler k ?W1)) = trace ?W1 @ tr"
          "\<forall>prev. commits_follow_success prev tr" by blast
        then show ?thesis using None fetch Inr h Some
          by (simp add: emit_def commits_follow_success_append)
      next
        case None'': None
        obtain cr n3 where cm: "CommitMessages R ctx msg n2 = (cr, n3)" by (rule prod.exhaust)
        let ?W2 = "emit (EvHandle msg None) ((emit (EvFetch (Inr msg)) (W\<lparr>net := n1\<rparr>))\<lparr>net := n2\<rparr>)"
        show ?thesis
        proof (cases cr)
          case None
          let ?W3 = "emit (EvCommit msg None) (?W2\<lparr>net := n3\<rparr>)"
          from Suc.IH [of ?W3] obtain tr where
            "trace (snd (Consume_loop R c ctx handler k ?W3)) = trace ?W3 @ tr"
            "\<forall>prev. commits_follow_success prev tr" by blast
          then show ?thesis using \<open>ctx (net W) = None\<close> fetch Inr h None'' cm None
            by (simp add: emit_def commits_follow_success_append)
        next
          case (Some err)
          let ?W3 = "emit (EvLog (Log ErrorLevel ''failed to commit message''
                                    [ZString ''topic'' (topic c), ZInt64 ''offset'' (Offset msg), ZError err]))
                              (emit (EvCommit msg (Some err)) (?W2\<lparr>net := n3\<rparr>))"
          from Suc.IH [of ?W3] obtain tr where
            "trace (snd (Consume_loop R c ctx handler k ?W3)) = trace ?W3 @ tr"
            "\<forall>prev. commits_follow_success prev tr" by blast
          then show ?thesis using \<open>ctx (net W) = None\<close> fetch Inr h None'' cm Some
            by (simp add: emit_def commits_follow_success_append)
        qed
      qed
    qed
  qed
qed


lemma Consume_loop_returns_ctx_error:
  "fst (Consume_loop R c ctx handler k W) = Some e \<Longrightarrow>
     ctx (net (snd (Consume_loop R c ctx handler k W))) = Some e"
proof (induction k arbitrary: W)
  case 0
  then show ?case by simp
next
  case (Suc k)
  then show ?case
    by (auto simp: emit_def Let_def split: option.splits prod.splits sum.splits)
qed

text \<open>
  Claim C1. In every run of \<open>Consume\<close>, however long, with any reader, handler and
  context: each call of \<^verbatim>\<open>CommitMessages\<close> in the trace stands right after a handler call
  on the same message that returned nil. And when the handler returns an error, the
  iteration ends with the log entry, without a commit call, and the loop goes on with
  the next iteration.
\<close>

theorem Consume_commits_only_after_success:
  "(\<exists>tr. trace (snd (Consume R c ctx handler fuel W)) = trace W @ tr \<and>
         commits_follow_success prev tr) \<and>
   (ctx (net W) = None \<and> FetchMessage R ctx (net W) = (Inr msg, n1) \<and>
    handler ctx msg n1 = (Some err, n2) \<longrightarrow>
      Consume_loop R c ctx handler (Suc k) W =
        Consume_loop R c ctx handler k
          (W\<lparr>net := n2,
             trace := trace W @ [EvFetch (Inr msg), EvHandle msg (Some err),
               EvLog (Log ErrorLevel ''failed to handle message''
                 [ZString ''topic'' (topic c), ZInt64 ''offset'' (Offset msg), ZError err])]\<rparr>))"
proof (intro conjI impI)
  let ?W0 = "emit (EvLog (Log InfoLevel ''starting consumer''
                [ZString ''topic'' (topic c), ZString ''group'' (groupID c)])) W"
  from Consume_loop_trace [of R c ctx handler fuel ?W0] obtain tr where
    "trace (snd (Consume_loop R c ctx handler fuel ?W0)) = trace ?W0 @ tr"
    "\<forall>prev. commits_follow_success prev tr" by blast
  then show "\<exists>tr. trace (snd (Consume R c ctx handler fuel W)) = trace W @ tr \<and>
         commits_follow_success prev tr"
    by (simp add: Consume_def emit_def commits_follow_success_append)
next
  assume "ctx (net W) = None \<and> FetchMessage R ctx (net W) = (Inr msg, n1) \<and>
    handler ctx msg n1 = (Some err, n2)"
  then show "Consume_loop R c ctx handler (Suc k) W =
        Consume_loop R c ctx handler k
          (W\<lparr>net := n2,
             trace := trace W @ [EvFetch (Inr msg), EvHandle msg (Some err),
               EvLog (Log ErrorLevel ''failed to handle message''
                 [ZString ''topic'' (topic c), ZInt64 ''offset'' (Offset msg), ZError err])]\<rparr>)"
    by (simp add: emit_def)
qed

lemma redelivery_run:
  "Consume (reader_failing_at 9) orders_consumer (cancel_at 5) fails_first 3 empty_world =
     (Some Canceled,
      \<lparr>created = [],
       trace = [EvLog (Log InfoLevel ''starting consumer'' [ZString ''topic'' ''orders'', ZString ''group'' ''billing'']),
                EvFetch (Inr order_msg), EvHandle order_msg (Some (Other ''handler failed'')),
                EvLog (Log ErrorLevel ''failed to handle message''
                  [ZString ''topic'' ''orders'', ZInt64 ''offset'' 7, ZError (Other ''handler failed'')]),
                EvFetch (Inr order_msg), EvHandle order_msg None, EvCommit order_msg None,
                EvLog (Log InfoLevel ''consumer stopping'' [ZString ''topic'' ''orders''])],
       net = 5\<rparr>)"
  by (simp add: Consume_def numeral_3_eq_3 emit_def reader_failing_at_def orders_consumer_def
      cancel_at_def fails_first_def empty_world_def order_msg_def)


theorem Consume_commits_only_after_success_witness:
  "cancel_at 5 (net empty_world) = None \<and>
   FetchMessage (reader_failing_at 9) (cancel_at 5) (net empty_world) = (Inr order_msg, 1) \<and>
   fails_first (cancel_at 5) order_msg 1 = (Some (Other ''handler failed''), 2) \<and>
   commits_follow_success (EvFetch (Inr order_msg))
     (trace (snd (Consume (reader_failing_at 9) orders_consumer (cancel_at 5) fails_first 3 empty_world))) \<and>
   filter is_commit
     (trace (snd (Consume (reader_failing_at 9) orders_consumer (cancel_at 5) fails_first 3 empty_world))) =
     [EvCommit order_msg None] \<and>
   Consume_loop (reader_failing_at 9) orders_consumer (cancel_at 5) fails_first (Suc 2) empty_world =
     Consume_loop (reader_failing_at 9) orders_consumer (cancel_at 5) fails_first 2
       (empty_world\<lparr>net := 2,
          trace := trace empty_world @ [EvFetch (Inr order_msg), EvHandle order_msg (Some (Other ''handler failed'')),
               EvLog (Log ErrorLevel ''failed to handle message''
                 [ZString ''topic'' (topic orders_consumer), ZInt64 ''offset'' (Offset order_msg),
                  ZError (Other ''handler failed'')])]\<rparr>)"
proof -
  have pre: "cancel_at 5 (net empty_world) = None"
    "FetchMessage (reader_failing_at 9) (cancel_at 5) (net empty_world) = (Inr order_msg, 1)"
    "fails_first (cancel_at 5) order_msg 1 = (Some (Other ''handler failed''), 2)"
    by (simp_all add: cancel_at_def empty_world_def reader_failing_at_def fails_first_def)
  have e: "trace empty_world = []" by (simp add: empty_world_def)
  have one: "filter is_commit
     (trace (snd (Consume (reader_failing_at 9) orders_consumer (cancel_at 5) fails_first 3 empty_world))) =
     [EvCommit order_msg None]"
    by (simp add: redelivery_run)
  from Consume_commits_only_after_success
    [of "reader_failing_at 9" orders_consumer "cancel_at 5" fails_first 3 empty_world
        "EvFetch (Inr order_msg)" order_msg 1 "Other ''handler failed''" 2 2]
    pre e one
  show ?thesis by simp
qed

text \<open>
  Claim C7. In an iteration that starts with the context live:
  if \<^verbatim>\<open>FetchMessage\<close> returns an error and the context is cancelled by then, \<open>Consume\<close>
  returns the context's error, whatever the fetch error was, and the fetch is the last
  call it made; if the context is still live, the error is logged and the loop goes on.
  If the fetch still hands out a message although the context was cancelled meanwhile
  (and stays cancelled, as contexts do), the message is handled and \<open>Consume\<close> returns the
  context's error at the next \<^verbatim>\<open>select\<close>, with no further fetch. Whenever \<open>Consume\<close>
  returns, what it returns is the context's error.
\<close>

theorem Consume_returns_cancellation:
  "(ctx (net W) = None \<and> FetchMessage R ctx (net W) = (Inl err, n1) \<and> ctx n1 = Some e \<longrightarrow>
      Consume_loop R c ctx handler (Suc k) W =
        (Some e, W\<lparr>net := n1, trace := trace W @ [EvFetch (Inl err)]\<rparr>)) \<and>
   (ctx (net W) = None \<and> FetchMessage R ctx (net W) = (Inl err, n1) \<and> ctx n1 = None \<longrightarrow>
      Consume_loop R c ctx handler (Suc k) W =
        Consume_loop R c ctx handler k
          (W\<lparr>net := n1,
             trace := trace W @ [EvFetch (Inl err),
               EvLog (Log ErrorLevel ''failed to fetch message''
                 [ZString ''topic'' (topic c), ZError err])]\<rparr>)) \<and>
   (ctx (net W) = None \<and> FetchMessage R ctx (net W) = (Inr msg, n1) \<and> ctx n1 = Some e \<and>
    stays_cancelled ctx e R handler msg \<longrightarrow>
      (\<exists>W' tr. Consume_loop R c ctx handler (Suc (Suc k)) W = (Some e, W') \<and>
          trace W' = trace W @ EvFetch (Inr msg) # tr \<and> filter is_fetch tr = [])) \<and>
   (fst (Consume R c ctx handler fuel W) = Some e \<longrightarrow>
      ctx (net (snd (Consume R c ctx handler fuel W))) = Some e)"
proof (intro conjI impI)
  assume "ctx (net W) = None \<and> FetchMessage R ctx (net W) = (Inl err, n1) \<and> ctx n1 = Some e"
  then show "Consume_loop R c ctx handler (Suc k) W =
        (Some e, W\<lparr>net := n1, trace := trace W @ [EvFetch (Inl err)]\<rparr>)"
    by (simp add: emit_def)
next
  assume "ctx (net W) = None \<and> FetchMessage R ctx (net W) = (Inl err, n1) \<and> ctx n1 = None"
  then show "Consume_loop R c ctx handler (Suc k) W =
        Consume_loop R c ctx handler k
          (W\<lparr>net := n1,
             trace := trace W @ [EvFetch (Inl err),
               EvLog (Log ErrorLevel ''failed to fetch message''
                 [ZString ''topic'' (topic c), ZError err])]\<rparr>)"
    by (simp add: emit_def)
next
  assume a0: "ctx (net W) = None \<and> FetchMessage R ctx (net W) = (Inr msg, n1) \<and> ctx n1 = Some e \<and>
    stays_cancelled ctx e R handler msg"
  then have a: "ctx (net W) = None \<and> FetchMessage R ctx (net W) = (Inr msg, n1) \<and> ctx n1 = Some e \<and>
    (\<forall>n. ctx n = Some e \<longrightarrow> ctx (snd (handler ctx msg n)) = Some e \<and>
                              ctx (snd (CommitMessages R ctx msg n)) = Some e)"
    by (simp add: stays_cancelled_def)
  obtain hr n2 where h: "handler ctx msg n1 = (hr, n2)" by (rule prod.exhaust)
  obtain cr n3 where cm: "CommitMessages R ctx msg n2 = (cr, n3)" by (rule prod.exhaust)
  have c2: "ctx n2 = Some e" using a h by (metis snd_conv)
  have c3: "ctx n3 = Some e" using a c2 cm by (metis snd_conv)
  show "\<exists>W' tr. Consume_loop R c ctx handler (Suc (Suc k)) W = (Some e, W') \<and>
          trace W' = trace W @ EvFetch (Inr msg) # tr \<and> filter is_fetch tr = []"
    using a h cm c2 c3
    by (cases hr; cases cr) (simp_all add: emit_def)
next
  assume "fst (Consume R c ctx handler fuel W) = Some e"
  then show "ctx (net (snd (Consume R c ctx handler fuel W))) = Some e"
    unfolding Consume_def by (rule Consume_loop_returns_ctx_error)
qed


theorem Consume_returns_cancellation_witness:
  "cancel_at 1 (net empty_world) = None \<and>
   FetchMessage (reader_failing_at 0) (cancel_at 1) (net empty_world) = (Inl (Other ''connection reset''), 1) \<and>
   cancel_at 1 1 = Some Canceled \<and>
   Consume_loop (reader_failing_at 0) orders_consumer (cancel_at 1) fails_first (Suc 0) empty_world =
     (Some Canceled, empty_world\<lparr>net := 1, trace := [EvFetch (Inl (Other ''connection reset''))]\<rparr>) \<and>
   cancel_at 5 (net empty_world) = None \<and>
   FetchMessage (reader_failing_at 0) (cancel_at 5) (net empty_world) = (Inl (Other ''connection reset''), 1) \<and>
   cancel_at 5 1 = None \<and>
   Consume_loop (reader_failing_at 0) orders_consumer (cancel_at 5) fails_first (Suc 0) empty_world =
     (None, empty_world\<lparr>net := 1, trace := [EvFetch (Inl (Other ''connection reset'')),
         EvLog (Log ErrorLevel ''failed to fetch message''
                 [ZString ''topic'' ''orders'', ZError (Other ''connection reset'')])]\<rparr>) \<and>
   FetchMessage eager_reader (cancel_at 1) (net empty_world) = (Inr order_msg, 1) \<and>
   stays_cancelled (cancel_at 1) Canceled eager_reader fails_first order_msg \<and>
   (\<exists>W' tr. Consume_loop eager_reader orders_consumer (cancel_at 1) fails_first (Suc (Suc 0)) empty_world =
        (Some Canceled, W') \<and>
      trace W' = EvFetch (Inr order_msg) # tr \<and> filter is_fetch tr = []) \<and>
   fst (Consume (reader_failing_at 0) orders_consumer (cancel_at 1) fails_first 1 empty_world) = Some Canceled \<and>
   cancel_at 1 (net (snd (Consume (reader_failing_at 0) orders_consumer (cancel_at 1) fails_first 1 empty_world)))
     = Some Canceled"
proof -
  have a: "cancel_at 1 (net empty_world) = None"
    "FetchMessage (reader_failing_at 0) (cancel_at 1) (net empty_world) = (Inl (Other ''connection reset''), 1)"
    "cancel_at 1 1 = Some Canceled"
    by (simp_all add: cancel_at_def empty_world_def reader_failing_at_def)
  have b: "cancel_at 5 (net empty_world) = None"
    "FetchMessage (reader_failing_at 0) (cancel_at 5) (net empty_world) = (Inl (Other ''connection reset''), 1)"
    "cancel_at 5 1 = None"
    by (simp_all add: cancel_at_def empty_world_def reader_failing_at_def)
  have c: "FetchMessage eager_reader (cancel_at 1) (net empty_world) = (Inr order_msg, 1)"
    "stays_cancelled (cancel_at 1) Canceled eager_reader fails_first order_msg"
    by (simp_all add: stays_cancelled_def cancel_at_def empty_world_def eager_reader_def fails_first_def)
  have d: "fst (Consume (reader_failing_at 0) orders_consumer (cancel_at 1) fails_first 1 empty_world) = Some Canceled"
    by (simp add: Consume_def emit_def cancel_at_def empty_world_def reader_failing_at_def)
  have t: "trace empty_world = []" "topic orders_consumer = ''orders''"
    by (simp_all add: empty_world_def orders_consumer_def)
  note A = Consume_returns_cancellation
    [of "cancel_at 1" empty_world "reader_failing_at 0" "Other ''connection reset''" 1 Canceled
        orders_consumer fails_first 0 order_msg 1]
  note B = Consume_returns_cancellation
    [of "cancel_at 5" empty_world "reader_failing_at 0" "Other ''connection reset''" 1 Canceled
        orders_consumer fails_first 0 order_msg 1]
  note C = Consume_returns_cancellation
    [of "cancel_at 1" empty_world eager_reader "Other ''connection reset''" 1 Canceled
        orders_consumer fails_first 0 order_msg 1]
  have A1: "Consume_loop (reader_failing_at 0) orders_consumer (cancel_at 1) fails_first (Suc 0) empty_world =
     (Some Canceled, empty_world\<lparr>net := 1, trace := [EvFetch (Inl (Other ''connection reset''))]\<rparr>)"
    using A a t by simp
  have A4: "cancel_at 1 (net (snd (Consume (reader_failing_at 0) orders_consumer (cancel_at 1) fails_first 1 empty_world)))
     = Some Canceled"
    using A d by blast
  have B2: "Consume_loop (reader_failing_at 0) orders_consumer (cancel_at 5) fails_first (Suc 0) empty_world =
     (None, empty_world\<lparr>net := 1, trace := [EvFetch (Inl (Other ''connection reset'')),
         EvLog (Log ErrorLevel ''failed to fetch message''
                 [ZString ''topic'' ''orders'', ZError (Other ''connection reset'')])]\<rparr>)"
    using B b t by simp
  have C3: "\<exists>W' tr. Consume_loop eager_reader orders_consumer (cancel_at 1) fails_first (Suc (Suc 0)) empty_world =
        (Some Canceled, W') \<and>
      trace W' = EvFetch (Inr order_msg) # tr \<and> filter is_fetch tr = []"
    using C a(1,3) c t by simp
  from a b c d A1 A4 B2 C3 show ?thesis by blast
qed

section \<open>The envelope: what decoding requires\<close>

text \<open>
  An object with an id and nothing else, and the empty object: both are well-formed
  JSON, every other field is missing, and \<open>ParseCloudEvent\<close> returns nil for the error
  and an envelope with those fields at their zero values.
\<close>

theorem ParseCloudEvent_accepts_missing_fields:
  \<open>ParseCloudEvent one_instant ''{"id":"e-1"}'' =
     (\<lparr>ID = ''e-1'', Source = [], Type = [], Time = 0, DataContentType = [], Data = None\<rparr>, None) \<and>
   ParseCloudEvent one_instant ''{}'' = (zero_CloudEvent, None)\<close>
  by code_simp

lemma empty_object_decodes:
  "ParseCloudEvent T ''{}'' = (zero_CloudEvent, None)"
  by (simp add: ParseCloudEvent_def json_Unmarshal_CloudEvent_def checkValid_def scan_reset_def
      scan_step_def scan_eof_ok_def stateBeginValue_def pushParseState_def maxNestingDepth_def
      isSpace_def stateBeginStringOrEmpty_def stateEndValue_def popParseState_def stateEndTop_def
      quote_def backslash_def scan_error_def goto_def Let_def)

text \<open>
  Claim C3, as the code has it. \<open>ParseCloudEvent\<close> fails exactly when \<^verbatim>\<open>json.Unmarshal\<close> does,
  with that error wrapped, and then the envelope it returns is the zero value, never a
  partly filled one. Input that is not well-formed JSON always fails. A missing field
  is no error: the empty object decodes to the zero envelope.
\<close>

theorem ParseCloudEvent_fails_to_zero:
  "(\<not> checkValid dat \<longrightarrow>
      ParseCloudEvent T dat = (zero_CloudEvent, Some (Wrap ''failed to parse cloud event'' SyntaxError))) \<and>
   (\<forall>e. snd (ParseCloudEvent T dat) = Some e \<longrightarrow>
      fst (ParseCloudEvent T dat) = zero_CloudEvent \<and>
      (\<exists>err. e = Wrap ''failed to parse cloud event'' err \<and>
             snd (json_Unmarshal_CloudEvent T dat zero_CloudEvent) = Some err)) \<and>
   (snd (ParseCloudEvent T dat) = None \<longleftrightarrow>
      snd (json_Unmarshal_CloudEvent T dat zero_CloudEvent) = None) \<and>
   ParseCloudEvent T ''{}'' = (zero_CloudEvent, None)"
proof (intro conjI impI allI)
  assume "\<not> checkValid dat"
  then show "ParseCloudEvent T dat = (zero_CloudEvent, Some (Wrap ''failed to parse cloud event'' SyntaxError))"
    by (simp add: ParseCloudEvent_def json_Unmarshal_CloudEvent_def)
next
  fix e assume "snd (ParseCloudEvent T dat) = Some e"
  then show "fst (ParseCloudEvent T dat) = zero_CloudEvent"
    by (auto simp: ParseCloudEvent_def split: prod.splits option.splits)
next
  fix e assume "snd (ParseCloudEvent T dat) = Some e"
  then show "\<exists>err. e = Wrap ''failed to parse cloud event'' err \<and>
             snd (json_Unmarshal_CloudEvent T dat zero_CloudEvent) = Some err"
    by (auto simp: ParseCloudEvent_def split: prod.splits option.splits)
next
  show "snd (ParseCloudEvent T dat) = None \<longleftrightarrow>
      snd (json_Unmarshal_CloudEvent T dat zero_CloudEvent) = None"
    by (auto simp: ParseCloudEvent_def split: prod.splits option.splits)
next
  show "ParseCloudEvent T ''{}'' = (zero_CloudEvent, None)"
    by (rule empty_object_decodes)
qed

theorem ParseCloudEvent_fails_to_zero_witness:
  \<open>\<not> checkValid ''{"id":'' \<and>
   ParseCloudEvent one_instant ''{"id":'' =
     (zero_CloudEvent, Some (Wrap ''failed to parse cloud event'' SyntaxError)) \<and>
   snd (ParseCloudEvent one_instant ''{"id":1}'') =
     Some (Wrap ''failed to parse cloud event'' (UnmarshalTypeError ''number'' ''CloudEvent.id'')) \<and>
   fst (ParseCloudEvent one_instant ''{"id":1}'') = zero_CloudEvent\<close>
proof -
  have bad: \<open>\<not> checkValid ''{"id":''\<close> by code_simp
  have tyerr: \<open>snd (ParseCloudEvent one_instant ''{"id":1}'') =
     Some (Wrap ''failed to parse cloud event'' (UnmarshalTypeError ''number'' ''CloudEvent.id''))\<close>
    by code_simp
  from ParseCloudEvent_fails_to_zero [of \<open>''{"id":''\<close> one_instant] bad
  have a: \<open>ParseCloudEvent one_instant ''{"id":'' =
     (zero_CloudEvent, Some (Wrap ''failed to parse cloud event'' SyntaxError))\<close>
    by (elim conjE) simp
  from ParseCloudEvent_fails_to_zero [of \<open>''{"id":1}''\<close> one_instant] tyerr
  have b: \<open>fst (ParseCloudEvent one_instant ''{"id":1}'') = zero_CloudEvent\<close>
    by (elim conjE) simp
  from bad a tyerr b show ?thesis by (intro conjI)
qed

section \<open>The envelope through \<^verbatim>\<open>json.Marshal\<close> and \<^verbatim>\<open>ParseCloudEvent\<close>\<close>

subsection \<open>The scanner inside a string literal\<close>











subsection \<open>Well-formed UTF-8\<close>








subsection \<open>Unquoting what was quoted\<close>











subsection \<open>One member of the object\<close>













subsection \<open>Time and data\<close>

text \<open>
  The text of a time has nothing to escape, so that compaction leaves it as it is and
  \<^verbatim>\<open>Time.UnmarshalJSON\<close> is handed the text \<^verbatim>\<open>Time.MarshalJSON\<close> wrote.
\<close>

lemma plain_ascii:
  assumes "plain c"
  shows "(of_char c :: nat) < 0x80" "\<not> (of_char c :: nat) < 0x20" "c \<noteq> quote" "c \<noteq> backslash"
    "c \<noteq> CHR ''<''" "c \<noteq> CHR ''>''" "c \<noteq> CHR ''&''" "c \<noteq> CHR 0xE2" "escape_ascii c = [c]"
  using assms by (auto simp: plain_def htmlSafe_def byte_in_def escape_ascii_def)


lemma valid_utf8_plain: "list_all plain ts \<Longrightarrow> valid_utf8 ts"
  by (induction ts) (simp_all add: plain_ascii del: utf8_width.simps)






subsection \<open>The whole envelope\<close>

















section \<open>Paginated: the page count\<close>

lemma sdiv_smod_ceiling:
  fixes t l :: int
  assumes "0 < l"
  shows "(if 0 < t smod l then t sdiv l + 1 else t sdiv l) = \<lceil>real_of_int t / real_of_int l\<rceil>"
proof (cases "0 \<le> t")
  case True
  then have q: "t sdiv l = t div l" and r: "t smod l = t mod l"
    using assms by (simp_all add: signed_divide_int_def signed_modulo_int_def sgn_if)
  show ?thesis
    unfolding q r using assms
    by (simp add: ceiling_divide_eq_div) (smt (verit) div_minus_minus zdiv_zminus1_eq_if  mod_pos_pos_trivial pos_mod_sign)
next
  case False
  then have q: "t sdiv l = - ((- t) div l)" and r: "t smod l = - ((- t) mod l)"
    using assms by (simp_all add: signed_divide_int_def signed_modulo_int_def sgn_if)
  have "\<not> 0 < t smod l" unfolding r using assms pos_mod_sign [of l "- t"] by linarith
  moreover have "\<lceil>real_of_int t / real_of_int l\<rceil> = - ((- t) div l)"
    using assms by (simp add: ceiling_divide_eq_div)
  ultimately show ?thesis by (simp add: q)
qed

lemma sdiv_bounds:
  fixes t l :: int
  assumes "0 < l"
  shows "min t 0 \<le> t sdiv l \<and> t sdiv l \<le> max t 0"
proof (cases "0 \<le> t")
  case True
  then have q: "t sdiv l = t div l"
    using assms by (simp add: signed_divide_int_def sgn_if)
  have "0 \<le> t div l" using True assms by (simp add: pos_imp_zdiv_nonneg_iff)
  moreover have "t div l \<le> t"
    using True int_div_le_self [of t l] by (cases "t = 0") simp_all
  ultimately show ?thesis using True by (simp add: q)
next
  case False
  then have q: "t sdiv l = - ((- t) div l)"
    using assms by (simp add: signed_divide_int_def sgn_if)
  have "0 \<le> (- t) div l" using False assms by (simp add: pos_imp_zdiv_nonneg_iff)
  moreover have "(- t) div l \<le> - t" using False by (intro int_div_le_self) simp
  ultimately show ?thesis using False by (simp add: q)
qed

lemma smod_bounds:
  fixes t l :: int
  assumes "0 < l"
  shows "- l < t smod l \<and> t smod l < l"
proof -
  have "0 \<le> \<bar>t\<bar> mod l" "\<bar>t\<bar> mod l < l" using assms by simp_all
  then show ?thesis by (auto simp: signed_modulo_int_def sgn_if)
qed

lemma ceiling_quotient_bounds:
  fixes t l :: int
  assumes "0 < l"
  shows "min t 0 \<le> \<lceil>real_of_int t / real_of_int l\<rceil> \<and> \<lceil>real_of_int t / real_of_int l\<rceil> \<le> max t 0"
proof -
  have c: "\<lceil>real_of_int t / real_of_int l\<rceil> = - ((- t) div l)"
    using assms by (simp add: ceiling_divide_eq_div)
  have s: "(- t) sdiv l = (if 0 \<le> - t then (- t) div l else - (t div l))"
    using assms by (simp add: signed_divide_int_def sgn_if)
  show ?thesis
  proof (cases "0 \<le> t")
    case True
    have "(- t) div l \<le> 0" using True assms by (simp add: div_nonpos_pos_le0)
    moreover have "- t \<le> (- t) div l"
      using True assms by (smt (verit, ccfv_threshold) div_by_1 pos_imp_zdiv_nonneg_iff zdiv_mono2_neg)
    ultimately show ?thesis unfolding c using True by simp
  next
    case False
    then have "0 \<le> (- t) div l" using assms by (simp add: pos_imp_zdiv_nonneg_iff)
    moreover have "(- t) div l \<le> - t" using False by (intro int_div_le_self) simp
    ultimately show ?thesis unfolding c using False by simp
  qed
qed

lemma sint_word_of_int_in_range:
  fixes k :: int
  assumes "- (2 ^ 63) \<le> k" "k < 2 ^ 63"
  shows "sint (word_of_int k :: 64 word) = k"
  using assms by (simp add: sint_sbintrunc' signed_take_bit_int_eq_self)

lemma sint_range64: "- (2 ^ 63) \<le> sint (w :: 64 word) \<and> sint w < 2 ^ 63"
  using sint_ge [of w] sint_lt [of w] by simp

text \<open>
  Claim C10. With \<open>limit > 0\<close> the helper answers 200 and the \<open>total_pages\<close> it reports is
  the ceiling of \<open>total / limit\<close>, for every \<open>total\<close> (negative ones too, since Go's
  division truncates towards zero). Nothing guards the division: the call panics with
  an integer division by zero, before writing anything, exactly when \<open>limit = 0\<close>.
\<close>

theorem Paginated_total_pages:
  "(0 <s limit \<longrightarrow>
      (\<exists>body. Paginated dat totl page limit = Inr (200, body) \<and>
         sint (pg_total_pages (pagination body)) =
           \<lceil>real_of_int (sint totl) / real_of_int (sint limit)\<rceil>)) \<and>
   (Paginated dat totl page limit = Inl IntegerDivideByZero \<longleftrightarrow> limit = 0)"
proof (intro conjI impI)
  assume pos: "0 <s limit"
  define t l where "t = sint totl" and "l = sint limit"
  have l: "0 < l" using pos by (simp add: l_def word_sless_alt)
  then have nz: "limit \<noteq> 0" by (auto simp: l_def)
  have tr: "- (2 ^ 63) \<le> t" "t < 2 ^ 63" using sint_range64 [of totl] by (simp_all add: t_def)
  have lr: "l < 2 ^ 63" using sint_range64 [of limit] by (simp add: l_def)
  have q: "sint (word_of_int (t sdiv l) :: 64 word) = t sdiv l"
    using sdiv_bounds [OF l, of t] tr by (intro sint_word_of_int_in_range) auto
  have r: "sint (word_of_int (t smod l) :: 64 word) = t smod l"
    using smod_bounds [OF l, of t] lr by (intro sint_word_of_int_in_range) auto
  define c where "c = \<lceil>real_of_int t / real_of_int l\<rceil>"
  have cb: "min t 0 \<le> c \<and> c \<le> max t 0"
    unfolding c_def by (rule ceiling_quotient_bounds [OF l])
  have c: "sint (word_of_int c :: 64 word) = c"
  proof (rule sint_word_of_int_in_range)
    show "- (2 ^ 63) \<le> c" using cb tr(1) by (simp add: min_def split: if_splits)
    show "c < 2 ^ 63" using cb tr(2) by (simp add: max_def split: if_splits)
  qed
  have "sint ((if 0 <s (word_of_int (t smod l) :: 64 word) then word_of_int (t sdiv l) + 1 else word_of_int (t sdiv l)) :: 64 word)
      = c"
  proof -
    have "(if 0 <s (word_of_int (t smod l) :: 64 word) then word_of_int (t sdiv l) + 1 else word_of_int (t sdiv l) :: 64 word)
        = word_of_int (if 0 < t smod l then t sdiv l + 1 else t sdiv l)"
      using r by (simp add: word_sless_alt)
    then show ?thesis using c sdiv_smod_ceiling [OF l, of t] by (simp add: c_def)
  qed
  then have "sint ((if 0 <s (word_of_int (sint totl smod sint limit) :: 64 word)
                then word_of_int (sint totl sdiv sint limit) + 1
                else word_of_int (sint totl sdiv sint limit)) :: 64 word)
      = \<lceil>real_of_int (sint totl) / real_of_int (sint limit)\<rceil>"
    unfolding t_def l_def c_def .
  then show "\<exists>body. Paginated dat totl page limit = Inr (200, body) \<and>
         sint (pg_total_pages (pagination body)) =
           \<lceil>real_of_int (sint totl) / real_of_int (sint limit)\<rceil>"
    using nz by (simp add: Paginated_def int_quo_def int_rem_def Let_def)
next
  show "Paginated dat totl page limit = Inl IntegerDivideByZero \<longleftrightarrow> limit = 0"
    by (simp add: Paginated_def int_quo_def int_rem_def Let_def)
qed

theorem Paginated_total_pages_witness:
  "0 <s (2 :: go_int) \<and>
   (\<exists>body. Paginated ''rows'' 7 1 2 = Inr (200, body) \<and>
      sint (pg_total_pages (pagination body)) = \<lceil>real_of_int (sint (7 :: go_int64)) / real_of_int (sint (2 :: go_int))\<rceil>) \<and>
   pg_total_pages (pagination (snd (projr (Paginated ''rows'' 7 1 2)))) = 4 \<and>
   Paginated ''rows'' 7 1 0 = Inl IntegerDivideByZero"
proof -
  have pos: "0 <s (2 :: go_int)" by (simp add: word_sless_alt)
  have v: "pg_total_pages (pagination (snd (projr (Paginated ''rows'' 7 1 2)))) = 4"
    by (simp add: Paginated_def int_quo_def int_rem_def Let_def signed_divide_int_def
        signed_modulo_int_def word_sless_alt)
  show ?thesis
    using pos v Paginated_total_pages [of 2 "''rows''" 7 1] Paginated_total_pages [of 0 "''rows''" 7 1]
    by blast
qed

end
